theory Spec2Isabelle
  imports Complex_Main "HOL-Library.Sublist"
begin

section \<open>Python values\<close>

text \<open>
  Python strings are modelled as HOL strings, the bytes of their UTF-8 encoding.
  The character classes used by \<^verbatim>\<open>str.lower\<close>, \<^verbatim>\<open>str.strip\<close> and the regular
  expressions are the ASCII ones: letters \<^verbatim>\<open>A-Z\<close>/\<^verbatim>\<open>a-z\<close>, digits \<^verbatim>\<open>0-9\<close>, and
  the white space characters 9-13 and 28-32. \<^verbatim>\<open>str.title\<close> works on characters and
  takes the case data of the characters beyond ASCII as a parameter. Python floats
  are modelled as exact rationals: rounding and overflow of IEEE doubles are outside
  the model.
\<close>

definition is_upper :: "char \<Rightarrow> bool" where
  "is_upper c = (65 \<le> (of_char c :: nat) \<and> (of_char c :: nat) \<le> 90)"

definition is_lower :: "char \<Rightarrow> bool" where
  "is_lower c = (97 \<le> (of_char c :: nat) \<and> (of_char c :: nat) \<le> 122)"

definition is_digit :: "char \<Rightarrow> bool" where
  "is_digit c = (48 \<le> (of_char c :: nat) \<and> (of_char c :: nat) \<le> 57)"

definition is_space :: "char \<Rightarrow> bool" where
  "is_space c = ((9 \<le> (of_char c :: nat) \<and> (of_char c :: nat) \<le> 13)
     \<or> (28 \<le> (of_char c :: nat) \<and> (of_char c :: nat) \<le> 32))"

definition lower_char :: "char \<Rightarrow> char" where
  "lower_char c = (if is_upper c then char_of ((of_char c :: nat) + 32) else c)"

definition upper_char :: "char \<Rightarrow> char" where
  "upper_char c = (if is_lower c then char_of ((of_char c :: nat) - 32) else c)"

text \<open>\<^verbatim>\<open>s.lower()\<close>\<close>

definition lower :: "string \<Rightarrow> string" where
  "lower s = map lower_char s"

text \<open>\<^verbatim>\<open>s.strip()\<close>\<close>

definition strip :: "string \<Rightarrow> string" where
  "strip s = rev (dropWhile is_space (rev (dropWhile is_space s)))"

text \<open>\<^verbatim>\<open>a in b\<close> on two strings: \<open>a\<close> occurs in \<open>b\<close> as a contiguous block.\<close>

definition str_in :: "string \<Rightarrow> string \<Rightarrow> bool" where
  "str_in a b = sublist a b"

text \<open>\<^verbatim>\<open>int(x)\<close> on a number: truncation towards zero.\<close>

definition py_int :: "rat \<Rightarrow> int" where
  "py_int q = (if 0 \<le> q then \<lfloor>q\<rfloor> else \<lceil>q\<rceil>)"

text \<open>
  A value read by \<^verbatim>\<open>json.loads\<close>. \<open>JNonFinite\<close> stands for the floats
  \<^verbatim>\<open>NaN\<close>, \<^verbatim>\<open>Infinity\<close> and \<^verbatim>\<open>-Infinity\<close>, which the parser accepts.
  \<open>JNull\<close> is \<^verbatim>\<open>None\<close>.
\<close>

datatype json =
    JNull
  | JBool bool
  | JInt int
  | JFloat rat
  | JNonFinite
  | JStr string
  | JArr "json list"
  | JObj "(string \<times> json) list"

datatype py_error = TypeError | AttributeError | KeyError | ValueError

text \<open>Truthiness of a value, as \<^verbatim>\<open>if data:\<close> and \<^verbatim>\<open>not raw_recs\<close> test it.\<close>

fun truthy :: "json \<Rightarrow> bool" where
  "truthy JNull = False"
| "truthy (JBool b) = b"
| "truthy (JInt n) = (n \<noteq> 0)"
| "truthy (JFloat q) = (q \<noteq> 0)"
| "truthy JNonFinite = True"
| "truthy (JStr s) = (s \<noteq> [])"
| "truthy (JArr xs) = (xs \<noteq> [])"
| "truthy (JObj kvs) = (kvs \<noteq> [])"

section \<open>Data model\<close>

text \<open>
  The project profile. \<open>budget_inr_per_month = None\<close> is a profile without that
  key; an absent \<^verbatim>\<open>tech_stack\<close> reads as the empty dict everywhere
  (\<^verbatim>\<open>profile.get("tech_stack", {})\<close>), so it is the empty association list. Tool
  names are strings.
\<close>

record profile =
  name :: string
  budget_inr_per_month :: "rat option"
  description :: string
  tech_stack :: "(string \<times> string) list"
  non_functional_requirements :: "string list"

text \<open>
  A billing record that has the three keys \<^verbatim>\<open>month\<close>, \<^verbatim>\<open>service\<close> and
  \<^verbatim>\<open>cost_inr\<close>, the last one holding a number. The descriptive keys
  (\<^verbatim>\<open>region\<close>, \<^verbatim>\<open>usage_type\<close>, \<^verbatim>\<open>desc\<close>, \<^verbatim>\<open>resource_id\<close>, ...) are written
  but never read by the pipeline and are left out.
\<close>

record billing_record =
  month :: json
  service :: json
  cost_inr :: rat

definition total_cost :: "billing_record list \<Rightarrow> rat" where
  "total_cost billing = sum_list (map cost_inr billing)"

section \<open>Stage 3: SQLite cost redistribution (analyzer.py)\<close>

text \<open>
  \<^verbatim>\<open>db_name = str(tech_stack.get("database", "")).lower()\<close>,
  \<^verbatim>\<open>is_sqlite = "sqlite" in db_name\<close>.
\<close>

definition is_sqlite :: "profile \<Rightarrow> bool" where
  "is_sqlite p =
     (let db_name = lower (case map_of (tech_stack p) ''database'' of
                             None \<Rightarrow> '''' | Some tool \<Rightarrow> tool)
      in str_in ''sqlite'' db_name)"

text \<open>
  Lines 19-26 of \<^verbatim>\<open>analyze_costs_and_generate_recommendations\<close>. The records of
  \<^verbatim>\<open>compute_recs\<close> are the very objects held by \<^verbatim>\<open>billing\<close>, so the in-place
  \<^verbatim>\<open>+=\<close> shows in \<^verbatim>\<open>billing\<close>; the entries of the list are distinct objects, as
  \<^verbatim>\<open>json.load\<close> builds them. \<^verbatim>\<open>/\<close> is true division.
\<close>

definition sqlite_redistribute :: "billing_record list \<Rightarrow> billing_record list" where
  "sqlite_redistribute billing0 =
     (let db_cost = sum_list (map cost_inr
                      (filter (\<lambda>r. service r = JStr ''Database'') billing0));
          billing = filter (\<lambda>r. service r \<noteq> JStr ''Database'') billing0;
          compute_recs = filter (\<lambda>r. service r = JStr ''Compute'') billing
      in if compute_recs \<noteq> [] \<and> db_cost > 0
         then (let avg_add = db_cost / of_nat (length compute_recs)
               in map (\<lambda>r. if service r = JStr ''Compute''
                            then r\<lparr>cost_inr := cost_inr r + avg_add\<rparr> else r) billing)
         else billing)"

text \<open>The billing list that the financial analysis works on.\<close>

definition analysis_billing :: "profile \<Rightarrow> billing_record list \<Rightarrow> billing_record list" where
  "analysis_billing p billing =
     (if is_sqlite p then sqlite_redistribute billing else billing)"

definition database_cost :: "billing_record list \<Rightarrow> rat" where
  "database_cost billing =
     sum_list (map cost_inr (filter (\<lambda>r. service r = JStr ''Database'') billing))"

definition has_compute :: "billing_record list \<Rightarrow> bool" where
  "has_compute billing = (filter (\<lambda>r. service r = JStr ''Compute'') billing \<noteq> [])"

definition database_records :: "billing_record list \<Rightarrow> billing_record list" where
  "database_records billing = filter (\<lambda>r. service r = JStr ''Database'') billing"

text \<open>Sample inputs.\<close>

definition sqlite_profile :: profile where
  "sqlite_profile = \<lparr> name = ''Shop'', budget_inr_per_month = Some 15000,
     description = ''Small e-commerce site'',
     tech_stack = [(''cloud'', ''AWS''), (''database'', ''SQLite'')],
     non_functional_requirements = [] \<rparr>"

definition rec_of :: "string \<Rightarrow> string \<Rightarrow> rat \<Rightarrow> billing_record" where
  "rec_of m s c = \<lparr> month = JStr m, service = JStr s, cost_inr = c \<rparr>"


definition billing_two_compute :: "billing_record list" where
  "billing_two_compute =
     [rec_of ''2025-01'' ''Compute'' 100, rec_of ''2025-01'' ''Database'' 50,
      rec_of ''2025-02'' ''Compute'' 200]"

definition billing_no_compute :: "billing_record list" where
  "billing_no_compute =
     [rec_of ''2025-01'' ''Storage'' 100, rec_of ''2025-01'' ''Database'' 50]"

definition billing_storage_only :: "billing_record list" where
  "billing_storage_only = [rec_of ''2025-01'' ''Storage'' 100]"

definition billing_negative_database :: "billing_record list" where
  "billing_negative_database =
     [rec_of ''2025-01'' ''Compute'' 100, rec_of ''2025-01'' ''Database'' (- 50)]"


section \<open>Stage 3: recommendations (analyzer.py)\<close>

text \<open>
  A recommendation item. The code reads \<^verbatim>\<open>title\<close>, \<^verbatim>\<open>recommendation_type\<close>,
  \<^verbatim>\<open>current_cost\<close> and \<^verbatim>\<open>potential_savings\<close> of a candidate through
  \<^verbatim>\<open>r.get(key, default)\<close> only, so an absent key is represented by its default
  (\<open>''''\<close>, \<open>''''\<close>, \<open>0\<close>, \<open>0\<close>). \<^verbatim>\<open>service\<close> is read with \<^verbatim>\<open>r.get("service")\<close>
  and \<^verbatim>\<open>description\<close> is tested for presence, so both are optional; their fields
  are \<open>service_rec\<close> and \<open>description_rec\<close>, as the billing record and the
  profile have fields of these names. Titles and types are strings and the two
  amounts are numbers.
\<close>

record rec =
  title :: string
  service_rec :: "string option"
  current_cost :: rat
  potential_savings :: rat
  recommendation_type :: string
  description_rec :: "string option"
  cloud_providers :: "string list"
  steps :: "string list"
  risk_level :: string
  implementation_effort :: string

text \<open>The "basic cleanup" at the head of the loop body of \<^verbatim>\<open>_process_recs\<close>.\<close>

definition cleanup :: "rec \<Rightarrow> rec" where
  "cleanup r =
     r\<lparr> current_cost := of_int (py_int (current_cost r)),
        potential_savings := of_int (py_int (potential_savings r)),
        description_rec :=
          (case description_rec r of
             None \<Rightarrow> Some (''Optimization for ''
                        @ (case service_rec r of None \<Rightarrow> ''None'' | Some s \<Rightarrow> s) @ ''.'')
           | Some d \<Rightarrow> Some d) \<rparr>"

text \<open>\<^verbatim>\<open>key = title[:15].lower()\<close>\<close>

definition dedup_key :: "string \<Rightarrow> string" where
  "dedup_key t = lower (take 15 t)"

text \<open>
  The filter loop of \<^verbatim>\<open>_process_recs\<close> (\<^verbatim>\<open>for r in recs\<close>), with the list
  \<^verbatim>\<open>cleaned\<close> and the set \<^verbatim>\<open>seen\<close> as its state. Each \<^verbatim>\<open>continue\<close> is a recursive call
  with the state unchanged.
\<close>

fun filter_loop :: "bool \<Rightarrow> rec list \<Rightarrow> rec list \<Rightarrow> string set \<Rightarrow> rec list \<times> string set" where
  "filter_loop sqlite [] cleaned seen = (cleaned, seen)"
| "filter_loop sqlite (r0 # rs) cleaned seen =
     (let r = cleanup r0;
          t = strip (title r)
      in if t = [] then filter_loop sqlite rs cleaned seen
         else let key = dedup_key t
           in if key \<in> seen then filter_loop sqlite rs cleaned seen
              else if str_in ''transfer acceleration'' (lower t)
                then filter_loop sqlite rs cleaned seen
              else if sqlite \<and> service_rec r = Some ''Database''
                then filter_loop sqlite rs cleaned seen
              else let is_gov = str_in ''governance'' (lower (recommendation_type r))
                in if potential_savings r > 0 \<or> is_gov
                   then filter_loop sqlite rs (cleaned @ [r]) (insert key seen)
                   else filter_loop sqlite rs cleaned seen)"

definition default_rec ::
  "string \<Rightarrow> string \<Rightarrow> rat \<Rightarrow> string \<Rightarrow> string list \<Rightarrow> string \<Rightarrow> string list
     \<Rightarrow> string \<Rightarrow> string \<Rightarrow> rec" where
  "default_rec t s sav ty providers d st risk effort =
     \<lparr> title = t, service_rec = Some s, current_cost = 0, potential_savings = sav,
       recommendation_type = ty, description_rec = Some d, cloud_providers = providers,
       steps = st, risk_level = risk, implementation_effort = effort \<rparr>"

text \<open>The list \<^verbatim>\<open>defaults\<close> of \<^verbatim>\<open>_process_recs\<close>, in its order.\<close>

definition defaults :: "rec list" where
  "defaults =
    [default_rec ''Configure Cloud Budget Alerts'' ''Governance'' 0 ''Governance''
       [''AWS'', ''GCP''] ''Set strict budget thresholds.''
       [''Create budget'', ''Set alert @ 80%''] ''Low'' ''Low'',
     default_rec ''Enable Resource Tagging'' ''Governance'' 0 ''Governance''
       [''AWS'', ''Azure''] ''Tag resources by project.''
       [''Define tags'', ''Apply policy''] ''Low'' ''Low'',
     default_rec ''Enable MFA'' ''Security'' 0 ''Security''
       [''AWS''] ''Secure root account.'' [''Turn on MFA''] ''Low'' ''Low'',
     default_rec ''Release Unused IPs'' ''Networking'' 200 ''Cleanup''
       [''AWS''] ''Release unattached Elastic IPs.'' [''Find IPs'', ''Release''] ''Low'' ''Low'',
     default_rec ''Delete Unattached EBS'' ''Storage'' 500 ''Cleanup''
       [''AWS''] ''Delete orphaned volumes.'' [''Scan volumes'', ''Delete''] ''Low'' ''Low'',
     default_rec ''Lease Privilege IAM'' ''Security'' 0 ''Security''
       [''AWS''] ''Audit permissions.'' [''Review roles''] ''Medium'' ''Medium'',
     default_rec ''Data Retention Policy'' ''Governance'' 0 ''Governance''
       [''AWS''] ''Auto-delete old logs.'' [''Set lifecycle''] ''Low'' ''Low'']"

text \<open>
  The loop \<^verbatim>\<open>for d in defaults\<close>: it stops (\<^verbatim>\<open>break\<close>) once six items are held
  and appends a default whose key is not in \<^verbatim>\<open>seen\<close>.
\<close>

fun fill_defaults :: "rec list \<Rightarrow> rec list \<Rightarrow> string set \<Rightarrow> rec list" where
  "fill_defaults [] recs seen = recs"
| "fill_defaults (d # ds) recs seen =
     (if length recs \<ge> 6 then recs
      else let key = dedup_key (title d)
        in if key \<notin> seen then fill_defaults ds (recs @ [d]) (insert key seen)
           else fill_defaults ds recs seen)"

text \<open>
  \<^verbatim>\<open>_process_recs(recs, profile, is_sqlite, total_cost)\<close>; the profile and the
  total cost are not read. \<^verbatim>\<open>sorted(..., reverse=True)\<close> is stable: items of equal
  savings keep their order.
\<close>

definition process_recs :: "rec list \<Rightarrow> bool \<Rightarrow> rec list" where
  "process_recs recs0 sqlite =
     (let (cleaned, seen) = filter_loop sqlite recs0 [] {};
          recs = sort_key (\<lambda>x. - potential_savings x) cleaned;
          recs' = (if length recs < 6 then fill_defaults defaults recs seen else recs)
      in take 10 recs')"



text \<open>
  Step 5, the savings cap (lines 62-69): the items of \<^verbatim>\<open>final_recs\<close> are
  rewritten in place when \<^verbatim>\<open>save_pct > 35\<close>.
\<close>

definition total_save :: "rec list \<Rightarrow> rat" where
  "total_save recs = sum_list (map potential_savings recs)"

definition save_pct :: "rat \<Rightarrow> rec list \<Rightarrow> rat" where
  "save_pct avg recs = (if avg \<noteq> 0 then total_save recs / avg * 100 else 0)"

definition cap_savings :: "rat \<Rightarrow> rec list \<Rightarrow> rec list" where
  "cap_savings avg final_recs =
     (if save_pct avg final_recs > 35
      then (let scale = 35 / save_pct avg final_recs
            in map (\<lambda>r. r\<lparr>potential_savings :=
                            of_int (py_int (potential_savings r * scale))\<rparr>) final_recs)
      else final_recs)"




text \<open>The dedup key of an item: the key the filter loop computes from its title.\<close>

definition key_of :: "rec \<Rightarrow> string" where
  "key_of r = dedup_key (strip (title r))"


definition advice :: "string \<Rightarrow> rat \<Rightarrow> string \<Rightarrow> rec" where
  "advice t sav ty =
     \<lparr> title = t, service_rec = Some ''Compute'', current_cost = 1000,
       potential_savings = sav, recommendation_type = ty, description_rec = None,
       cloud_providers = [''AWS''], steps = [], risk_level = ''low'',
       implementation_effort = ''low'' \<rparr>"

definition candidates_with_duplicate :: "rec list" where
  "candidates_with_duplicate =
     [advice ''Rightsize EC2 instances in prod'' 300 ''rightsizing'',
      advice ''  rightsize ec2 instances in staging'' 900 ''rightsizing'',
      advice ''Enable MFA'' 0 ''governance'']"




definition aws_profile :: profile where
  "aws_profile = \<lparr> name = ''Shop'', budget_inr_per_month = Some 1000,
     description = ''Small e-commerce site'',
     tech_stack = [(''cloud'', ''AWS''), (''database'', ''PostgreSQL'')],
     non_functional_requirements = [] \<rparr>"


section \<open>Stage 2: billing generation (billing\_engine.py)\<close>

text \<open>
  \<^verbatim>\<open>get_recent_months(n)\<close>. The clock is a parameter: \<open>(y, m)\<close> is the year and the
  month (1 to 12) of \<^verbatim>\<open>datetime.now()\<close>, for years 1000 to 9999.
  \<^verbatim>\<open>strftime("%Y-%m")\<close> writes the year with four digits and the month with
  two. \<^verbatim>\<open>now - relativedelta(months=i)\<close> steps back \<open>i\<close> months.
\<close>

definition digit :: "int \<Rightarrow> char" where
  "digit n = ''0123456789'' ! nat (n mod 10)"

definition year_month :: "int \<times> int \<Rightarrow> string" where
  "year_month ym =
     (case ym of (y, m) \<Rightarrow>
        [digit (y div 1000), digit (y div 100), digit (y div 10), digit y]
          @ ''-'' @ [digit (m div 10), digit m])"

definition months_back :: "int \<times> int \<Rightarrow> int \<Rightarrow> int \<times> int" where
  "months_back now i =
     (case now of (y, m) \<Rightarrow>
        let k = y * 12 + (m - 1) - i in (k div 12, k mod 12 + 1))"

definition get_recent_months :: "int \<times> int \<Rightarrow> nat \<Rightarrow> string list" where
  "get_recent_months now n =
     map (\<lambda>i. year_month (months_back now (int i))) (rev [0..<n])"

text \<open>
  \<^verbatim>\<open>_generate_fallback(budget, months)\<close>: five records per month, then
  \<^verbatim>\<open>recs[:20]\<close>. The shares \<^verbatim>\<open>0.4\<close>, \<^verbatim>\<open>0.3\<close>, \<^verbatim>\<open>0.15\<close>, \<^verbatim>\<open>0.1\<close>, \<^verbatim>\<open>0.05\<close> are
  exact fractions here.
\<close>

definition fallback_month :: "rat \<Rightarrow> string \<Rightarrow> billing_record list" where
  "fallback_month budget m =
     [\<lparr> month = JStr m, service = JStr ''Compute'',
         cost_inr = of_int (py_int (budget * (4 / 10))) \<rparr>,
      \<lparr> month = JStr m, service = JStr ''Database'',
         cost_inr = of_int (py_int (budget * (3 / 10))) \<rparr>,
      \<lparr> month = JStr m, service = JStr ''Storage'',
         cost_inr = of_int (py_int (budget * (15 / 100))) \<rparr>,
      \<lparr> month = JStr m, service = JStr ''Networking'',
         cost_inr = of_int (py_int (budget * (1 / 10))) \<rparr>,
      \<lparr> month = JStr m, service = JStr ''Monitoring'',
         cost_inr = of_int (py_int (budget * (5 / 100))) \<rparr>]"

definition generate_fallback :: "rat \<Rightarrow> string list \<Rightarrow> billing_record list" where
  "generate_fallback budget months = take 20 (concat (map (fallback_month budget) months))"

text \<open>
  \<^verbatim>\<open>k in r\<close> for an element \<open>r\<close> of the response: key membership on a dict,
  element membership on a list, substring test on a string, \<^verbatim>\<open>TypeError\<close> on a
  number, a boolean or \<^verbatim>\<open>None\<close>. A dict is an association list with one entry per
  key.
\<close>

fun key_in :: "string \<Rightarrow> json \<Rightarrow> py_error + bool" where
  "key_in k (JObj kvs) = Inr (k \<in> set (map fst kvs))"
| "key_in k (JArr xs) = Inr (JStr k \<in> set xs)"
| "key_in k (JStr s) = Inr (str_in k s)"
| "key_in k JNull = Inl TypeError"
| "key_in k (JBool b) = Inl TypeError"
| "key_in k (JInt n) = Inl TypeError"
| "key_in k (JFloat q) = Inl TypeError"
| "key_in k JNonFinite = Inl TypeError"

text \<open>\<^verbatim>\<open>all(k in r for k in required)\<close>, left to right, stopping at the first miss.\<close>

fun all_keys_in :: "string list \<Rightarrow> json \<Rightarrow> py_error + bool" where
  "all_keys_in [] r = Inr True"
| "all_keys_in (k # ks) r =
     (case key_in k r of
        Inl e \<Rightarrow> Inl e
      | Inr present \<Rightarrow> if present then all_keys_in ks r else Inr False)"

definition required :: "string list" where
  "required = [''month'', ''service'', ''cost_inr'']"

text \<open>
  \<^verbatim>\<open>int(float(v))\<close> inside \<^verbatim>\<open>try ... except: continue\<close>: \<open>None\<close> when either
  conversion raises. \<^verbatim>\<open>float\<close> on a string is Python's parser of float literals,
  a parameter \<open>str_float\<close> of the model, which gives \<open>None\<close> when the parser
  raises or yields \<^verbatim>\<open>nan\<close> or \<^verbatim>\<open>inf\<close> (then \<^verbatim>\<open>int\<close> raises).
\<close>

fun int_float :: "(string \<Rightarrow> rat option) \<Rightarrow> json \<Rightarrow> int option" where
  "int_float str_float (JInt n) = Some n"
| "int_float str_float (JFloat q) = Some (py_int q)"
| "int_float str_float (JBool b) = Some (if b then 1 else 0)"
| "int_float str_float (JStr s) = map_option py_int (str_float s)"
| "int_float str_float JNull = None"
| "int_float str_float JNonFinite = None"
| "int_float str_float (JArr xs) = None"
| "int_float str_float (JObj kvs) = None"

text \<open>
  The body of the repair loop on one element: \<open>Inr None\<close> is \<^verbatim>\<open>continue\<close>,
  \<open>Inr (Some b)\<close> is \<^verbatim>\<open>valid_recs.append(r)\<close>. An element that is a string or a
  list and passes the key test has no \<^verbatim>\<open>setdefault\<close>: \<^verbatim>\<open>AttributeError\<close>.
\<close>

definition repair :: "(string \<Rightarrow> rat option) \<Rightarrow> json \<Rightarrow> py_error + billing_record option" where
  "repair str_float r =
     (case all_keys_in required r of
        Inl e \<Rightarrow> Inl e
      | Inr ok \<Rightarrow>
          if \<not> ok then Inr None
          else (case r of
                  JObj kvs \<Rightarrow>
                    (case (map_of kvs ''month'', map_of kvs ''service'', map_of kvs ''cost_inr'') of
                       (Some m, Some s, Some c) \<Rightarrow>
                         (case int_float str_float c of
                            None \<Rightarrow> Inr None
                          | Some n \<Rightarrow> Inr (Some \<lparr> month = m, service = s, cost_inr = of_int n \<rparr>))
                     | _ \<Rightarrow> Inl KeyError)
                | _ \<Rightarrow> Inl AttributeError))"

fun repair_loop :: "(string \<Rightarrow> rat option) \<Rightarrow> json list \<Rightarrow> py_error + billing_record list" where
  "repair_loop str_float [] = Inr []"
| "repair_loop str_float (r # rs) =
     (case repair str_float r of
        Inl e \<Rightarrow> Inl e
      | Inr None \<Rightarrow> repair_loop str_float rs
      | Inr (Some b) \<Rightarrow>
          (case repair_loop str_float rs of
             Inl e \<Rightarrow> Inl e
           | Inr bs \<Rightarrow> Inr (b # bs)))"

text \<open>
  \<^verbatim>\<open>r["month"] in records_by_month\<close>: a list or a dict cannot be hashed
  (\<^verbatim>\<open>TypeError\<close>); only a string can equal a key.
\<close>

fun month_in :: "string list \<Rightarrow> json \<Rightarrow> py_error + bool" where
  "month_in months (JStr m) = Inr (m \<in> set months)"
| "month_in months (JArr xs) = Inl TypeError"
| "month_in months (JObj kvs) = Inl TypeError"
| "month_in months JNull = Inr False"
| "month_in months (JBool b) = Inr False"
| "month_in months (JInt n) = Inr False"
| "month_in months (JFloat q) = Inr False"
| "month_in months JNonFinite = Inr False"

text \<open>The grouping loop: the records that enter some month's list, in their order.\<close>

fun group_loop :: "string list \<Rightarrow> billing_record list \<Rightarrow> py_error + billing_record list" where
  "group_loop months [] = Inr []"
| "group_loop months (r # rs) =
     (case month_in months (month r) of
        Inl e \<Rightarrow> Inl e
      | Inr inside \<Rightarrow>
          (case group_loop months rs of
             Inl e \<Rightarrow> Inl e
           | Inr kept \<Rightarrow> Inr (if inside then r # kept else kept)))"

text \<open>The keys of \<^verbatim>\<open>{m: [] for m in months}\<close> in iteration order.\<close>

definition dict_keys :: "string list \<Rightarrow> string list" where
  "dict_keys months = rev (remdups (rev months))"

text \<open>
  The body of \<^verbatim>\<open>for month, recs in records_by_month.items()\<close>. \<open>u\<close> is the value
  that \<^verbatim>\<open>random.uniform(0.97, 1.03)\<close> returns for this month.
\<close>

definition normalize_group :: "rat \<Rightarrow> rat \<Rightarrow> billing_record list \<Rightarrow> billing_record list" where
  "normalize_group budget u recs =
     (if recs = [] then []
      else let s = sum_list (map cost_inr recs);
               current_total = (if s = 0 then 1 else s);
               target = budget * u;
               scale = target / current_total
        in map (\<lambda>r. r\<lparr>cost_inr := of_int (max 10 (py_int (cost_inr r * scale)))\<rparr>) recs)"

definition is_list :: "json \<Rightarrow> bool" where
  "is_list v = (case v of JArr xs \<Rightarrow> True | _ \<Rightarrow> False)"

text \<open>
  \<^verbatim>\<open>profile.get("budget_inr_per_month", dflt)\<close> is \<open>get_budget dflt\<close>.
  \<^verbatim>\<open>generate_mock_billing(profile)\<close>: its surroundings are parameters, the float
  parser \<open>str_float\<close>, the random draws \<open>draws\<close> (one per month), the clock
  \<open>now\<close>, and \<open>raw_recs\<close>, the value that \<^verbatim>\<open>query_llama_json\<close> returned. The
  tech stack of the profile goes into the prompt only.
\<close>

definition get_budget :: "rat \<Rightarrow> profile \<Rightarrow> rat" where
  "get_budget dflt p = (case budget_inr_per_month p of None \<Rightarrow> dflt | Some b \<Rightarrow> b)"

definition generate_mock_billing ::
  "(string \<Rightarrow> rat option) \<Rightarrow> (string \<Rightarrow> rat) \<Rightarrow> int \<times> int \<Rightarrow> profile \<Rightarrow> json
     \<Rightarrow> py_error + billing_record list" where
  "generate_mock_billing str_float draws now p raw_recs =
     (let budget = get_budget 5000 p;
          months = get_recent_months now 4
      in if \<not> truthy raw_recs \<or> \<not> is_list raw_recs
         then Inr (generate_fallback budget months)
         else (case raw_recs of
                 JArr items \<Rightarrow>
                   (case repair_loop str_float items of
                      Inl e \<Rightarrow> Inl e
                    | Inr valid_recs \<Rightarrow>
                        if valid_recs = [] then Inr (generate_fallback budget months)
                        else (case group_loop months valid_recs of
                                Inl e \<Rightarrow> Inl e
                              | Inr kept \<Rightarrow>
                                  Inr (take 20 (concat (map
                                    (\<lambda>m. normalize_group budget (draws m)
                                            (filter (\<lambda>r. month r = JStr m) kept))
                                    (dict_keys months))))))
               | _ \<Rightarrow> Inr (generate_fallback budget months)))"

text \<open>Sample inputs: the record of the prompt's own example, and a current one.\<close>

definition billing_item :: "string \<Rightarrow> string \<Rightarrow> json \<Rightarrow> json" where
  "billing_item m s c =
     JObj [(''month'', JStr m), (''service'', JStr s), (''resource_id'', JStr ''i-web-01''),
           (''cost_inr'', c), (''desc'', JStr ''web server'')]"

definition no_str_float :: "string \<Rightarrow> rat option" where
  "no_str_float s = None"

definition even_draws :: "string \<Rightarrow> rat" where
  "even_draws m = 1"


definition stale_items :: "json list" where
  "stale_items = [billing_item ''2025-01'' ''EC2'' (JInt 900)]"

definition stale_response :: json where
  "stale_response = JArr stale_items"

definition fresh_items :: "json list" where
  "fresh_items =
     [billing_item ''2026-10'' ''EC2'' (JInt 100), billing_item ''2026-10'' ''S3'' (JFloat 200),
      billing_item ''2026-10'' ''RDS'' (JInt 300), billing_item ''2026-09'' ''EC2'' (JInt (- 5)),
      billing_item ''2025-01'' ''EC2'' (JInt 900), JStr ''total: 1500'']"

definition fresh_response :: json where
  "fresh_response = JArr fresh_items"

definition billing_thirds :: "billing_record list" where
  "billing_thirds =
     [rec_of ''2026-10'' ''Compute'' 10, rec_of ''2026-10'' ''Compute'' 10,
      rec_of ''2026-10'' ''Compute'' 10, rec_of ''2026-10'' ''Database'' 100]"

definition negative_items :: "json list" where
  "negative_items = [billing_item ''2026-10'' ''EC2'' (JInt (- 5))]"


section \<open>The validated query loop (llm\_utils.py)\<close>

text \<open>
  \<^verbatim>\<open>query_llama_json\<close> (the completion request and the JSON extraction) is outside
  the program: \<open>llm i prompt\<close> is the value it returns on the call number \<open>i\<close>
  for that prompt, \<open>JNull\<close> when the request or the extraction fails. A validator
  returns the pair \<^verbatim>\<open>(is_valid, error_msg)\<close>, the message as the f-string prints it.
\<close>

definition newline :: string where
  "newline = [CHR 0x0A]"

text \<open>The prompt of the next attempt, after an attempt that returned \<open>data\<close>.\<close>

definition feedback_prompt :: "(json \<Rightarrow> bool \<times> string) \<Rightarrow> string \<Rightarrow> json \<Rightarrow> string" where
  "feedback_prompt validator_fn prompt data =
     (if truthy data
      then prompt @ newline @ newline @ '' PREVIOUS OUTPUT INVALID: ''
             @ snd (validator_fn data) @ newline @ ''Ensure strict JSON compliance.''
      else prompt @ newline @ newline @ '' PREVIOUS OUTPUT WAS NOT JSON.''
             @ newline @ ''Return ONLY valid JSON.'')"

text \<open>
  The loop \<^verbatim>\<open>for i in range(max_retries + 1)\<close>, with the number of iterations
  left, the index \<open>i\<close> and \<^verbatim>\<open>current_prompt\<close> as its state. It returns the result
  (\<open>None\<close> for \<^verbatim>\<open>return None\<close>) and the log of what each attempt made returned.
\<close>

fun query_loop ::
  "(nat \<Rightarrow> string \<Rightarrow> json) \<Rightarrow> (json \<Rightarrow> bool \<times> string) \<Rightarrow> string
     \<Rightarrow> nat \<Rightarrow> nat \<Rightarrow> string \<Rightarrow> json option \<times> json list" where
  "query_loop llm validator_fn prompt 0 i current_prompt = (None, [])"
| "query_loop llm validator_fn prompt (Suc n) i current_prompt =
     (let data = llm i current_prompt
      in if truthy data \<and> fst (validator_fn data) then (Some data, [data])
         else (case query_loop llm validator_fn prompt n (Suc i)
                      (feedback_prompt validator_fn prompt data) of
                 (res, attempts) \<Rightarrow> (res, data # attempts)))"

definition query_llama_with_validation ::
  "(nat \<Rightarrow> string \<Rightarrow> json) \<Rightarrow> string \<Rightarrow> (json \<Rightarrow> bool \<times> string) \<Rightarrow> int
     \<Rightarrow> json option \<times> json list" where
  "query_llama_with_validation llm prompt validator_fn max_retries =
     query_loop llm validator_fn prompt (nat (max_retries + 1)) 0 prompt"

text \<open>A payload that the loop can return: it is truthy and the validator accepts it.\<close>

definition accepted :: "(json \<Rightarrow> bool \<times> string) \<Rightarrow> json \<Rightarrow> bool" where
  "accepted validator_fn data = (truthy data \<and> fst (validator_fn data))"

text \<open>
  Sample validators and completions: the first test of the analyzer's validator
  (a list of five or more items), a validator that accepts everything, a completion
  service that answers with the empty list first, and one that fails twice.
\<close>

definition need_five :: "json \<Rightarrow> bool \<times> string" where
  "need_five recs =
     (case recs of
        JArr xs \<Rightarrow> if length xs < 5 then (False, ''Need 5+ items'') else (True, ''None'')
      | _ \<Rightarrow> (False, ''Need 5+ items''))"

definition accept_all :: "json \<Rightarrow> bool \<times> string" where
  "accept_all recs = (True, ''None'')"

definition empty_then_one :: "nat \<Rightarrow> string \<Rightarrow> json" where
  "empty_then_one i prompt = (if i = 0 then JArr [] else JArr [JInt 1])"

definition five_items :: json where
  "five_items = JArr [JInt 1, JInt 2, JInt 3, JInt 4, JInt 5]"

definition third_time_lucky :: "nat \<Rightarrow> string \<Rightarrow> json" where
  "third_time_lucky i prompt =
     (if i = 0 then JNull else if i = 1 then JArr [JInt 1] else five_items)"

definition never_json :: "nat \<Rightarrow> string \<Rightarrow> json" where
  "never_json i prompt = JNull"


section \<open>Stage 1: the profile sanitizer (profile\_generator.py)\<close>

text \<open>
  The characters of a string: a byte and the continuation bytes (128 to 191) that
  follow it.
\<close>

definition is_cont :: "char \<Rightarrow> bool" where
  "is_cont c = (128 \<le> (of_char c :: nat) \<and> (of_char c :: nat) < 192)"

fun utf8_chars :: "string \<Rightarrow> string list" where
  "utf8_chars [] = []"
| "utf8_chars (c # cs) =
     (case utf8_chars cs of
        [] \<Rightarrow> [[c]]
      | ch # chs \<Rightarrow>
          (case ch of
             [] \<Rightarrow> [c] # chs
           | b # bs \<Rightarrow> if is_cont b then (c # ch) # chs else [c] # ch # chs))"

text \<open>
  The case data of a character, as \<^verbatim>\<open>str.title\<close> reads it: whether it is cased
  (\<^verbatim>\<open>_PyUnicode_IsCased\<close>), its full title-case mapping and its full lower-case
  mapping. For the ASCII characters the data is written out; for the others it is
  the Unicode character database, a parameter \<open>ucd\<close> of the model.
\<close>

record casing =
  cased :: bool
  to_title :: string
  to_lower :: string

definition is_ascii :: "char \<Rightarrow> bool" where
  "is_ascii c = ((of_char c :: nat) < 128)"

definition char_casing :: "(string \<Rightarrow> casing) \<Rightarrow> string \<Rightarrow> casing" where
  "char_casing ucd ch =
     (case ch of
        [c] \<Rightarrow>
          if is_ascii c
          then \<lparr> cased = (is_lower c \<or> is_upper c), to_title = [upper_char c],
                 to_lower = [lower_char c] \<rparr>
          else ucd ch
      | _ \<Rightarrow> ucd ch)"

text \<open>
  \<^verbatim>\<open>s.title()\<close>: a character that follows a cased character is written with its
  lower-case mapping, any other character with its title-case mapping. \<open>prev\<close> is
  \<^verbatim>\<open>previous_is_cased\<close>.
\<close>

fun title_chars :: "(string \<Rightarrow> casing) \<Rightarrow> bool \<Rightarrow> string list \<Rightarrow> string" where
  "title_chars ucd prev [] = []"
| "title_chars ucd prev (ch # chs) =
     (if prev then to_lower (char_casing ucd ch) else to_title (char_casing ucd ch))
       @ title_chars ucd (cased (char_casing ucd ch)) chs"

definition title_case :: "(string \<Rightarrow> casing) \<Rightarrow> string \<Rightarrow> string" where
  "title_case ucd s = title_chars ucd False (utf8_chars s)"

text \<open>\<^verbatim>\<open>re.findall(r'\d+', s)\<close>: the maximal runs of digits, left to right.\<close>

fun digit_runs :: "string \<Rightarrow> string \<Rightarrow> string list" where
  "digit_runs run [] = (if run = [] then [] else [run])"
| "digit_runs run (c # cs) =
     (if is_digit c then digit_runs (run @ [c]) cs
      else (if run = [] then [] else [run]) @ digit_runs [] cs)"

definition findall_digits :: "string \<Rightarrow> string list" where
  "findall_digits s = digit_runs [] s"

text \<open>
  \<^verbatim>\<open>re.search\<close>: the match at the leftmost position where the pattern matches.
  \<open>m\<close> matches the pattern at the head of a string and returns its group 1.
\<close>

fun re_search :: "(string \<Rightarrow> string option) \<Rightarrow> string \<Rightarrow> string option" where
  "re_search m [] = m []"
| "re_search m (c # cs) = (case m (c # cs) of Some g \<Rightarrow> Some g | None \<Rightarrow> re_search m cs)"

definition digit_or_comma :: "char \<Rightarrow> bool" where
  "digit_or_comma c = (is_digit c \<or> c = CHR '','')"

text \<open>\<^verbatim>\<open>\s*([\d,]+)\<close> at the head of a string: both parts are greedy.\<close>

definition amount_after_space :: "string \<Rightarrow> string option" where
  "amount_after_space s =
     (let g = takeWhile digit_or_comma (dropWhile is_space s)
      in if g = [] then None else Some g)"

text \<open>The rupee sign U+20B9 in UTF-8.\<close>

definition rupee_sign :: string where
  "rupee_sign = [CHR 0xE2, CHR 0x82, CHR 0xB9]"

text \<open>
  \<^verbatim>\<open>(?:rs\.?|inr|R)\s*([\d,]+)\<close> at the head of a string, where \<^verbatim>\<open>R\<close>
  stands for the rupee sign. Giving the optional dot back cannot help, as a dot is
  neither white space nor part of an amount.
\<close>

definition prefixed_amount :: "string \<Rightarrow> string option" where
  "prefixed_amount s =
     (if prefix ''rs'' s
      then (let r = drop 2 s
            in amount_after_space (if prefix ''.'' r then drop 1 r else r))
      else if prefix ''inr'' s then amount_after_space (drop 3 s)
      else if prefix rupee_sign s then amount_after_space (drop (length rupee_sign) s)
      else None)"

text \<open>\<^verbatim>\<open>([\d,]+)\s*(?:rupees|rs)\<close> at the head of a string.\<close>

definition suffixed_amount :: "string \<Rightarrow> string option" where
  "suffixed_amount s =
     (let g = takeWhile digit_or_comma s;
          r = dropWhile is_space (dropWhile digit_or_comma s)
      in if g \<noteq> [] \<and> (prefix ''rupees'' r \<or> prefix ''rs'' r) then Some g else None)"

text \<open>\<^verbatim>\<open>int(s)\<close> on a string of digits.\<close>

definition int_of_digits :: "string \<Rightarrow> int" where
  "int_of_digits ds = foldl (\<lambda>a c. 10 * a + (of_char c - 48)) 0 ds"

text \<open>
  Step 1: the budget found in the text, \<open>None\<close> when no pattern matches or when
  \<^verbatim>\<open>int\<close> raises \<^verbatim>\<open>ValueError\<close>: the group holds commas only, or it holds more
  digits than the interpreter converts (\<^verbatim>\<open>sys.get_int_max_str_digits()\<close>, 4300
  unless configured, 0 for no limit), a parameter \<open>max_digits\<close> of the model.
\<close>

definition budget_in_text :: "nat \<Rightarrow> string \<Rightarrow> int option" where
  "budget_in_text max_digits text_lower =
     (let budget_match =
            (case re_search prefixed_amount text_lower of
               Some g \<Rightarrow> Some g
             | None \<Rightarrow> re_search suffixed_amount text_lower)
      in case budget_match of
           None \<Rightarrow> None
         | Some g \<Rightarrow>
             (let ds = filter (\<lambda>c. c \<noteq> CHR '','') g
              in if ds = [] \<or> (0 < max_digits \<and> max_digits < length ds) then None
                 else Some (int_of_digits ds)))"

text \<open>The table \<^verbatim>\<open>concepts\<close>, in its order.\<close>

definition concepts :: "(string \<times> string list) list" where
  "concepts =
    [(''scalability'', [''scalab'', ''scale'', ''scalable'', ''scalability'']),
     (''cost efficiency'', [''cost'', ''cost efficiency'', ''cost-effective'', ''cost efficient'']),
     (''high availability'', [''availability'', ''high availability'', ''high-availability'']),
     (''security'', [''security'', ''secure'', ''authentication'', ''authorization'']),
     (''disaster recovery'', [''disaster'', ''recovery'', ''backup'', ''failover'']),
     (''monitoring'', [''monitor'', ''monitoring'', ''uptime'', ''observability''])]"

text \<open>
  The loop \<^verbatim>\<open>for concept, keywords in concepts.items()\<close>: the value of
  \<^verbatim>\<open>is_valid\<close> when it ends.
\<close>

fun concept_loop :: "string \<Rightarrow> string \<Rightarrow> (string \<times> string list) list \<Rightarrow> bool" where
  "concept_loop text_lower nfr_clean [] = False"
| "concept_loop text_lower nfr_clean ((concept, keywords) # rest) =
     (if str_in concept nfr_clean \<or> list_ex (\<lambda>k. str_in k nfr_clean) keywords
      then (if list_ex (\<lambda>k. str_in k text_lower) (keywords @ [concept]) then True
            else concept_loop text_lower nfr_clean rest)
      else concept_loop text_lower nfr_clean rest)"

text \<open>
  The body of \<^verbatim>\<open>for nfr in ...\<close>: what it appends to \<^verbatim>\<open>valid_nfrs\<close>, if
  anything.
\<close>

definition check_nfr :: "(string \<Rightarrow> casing) \<Rightarrow> string \<Rightarrow> string \<Rightarrow> string option" where
  "check_nfr ucd text_lower nfr =
     (let nfr_clean = strip (lower nfr);
          nums = findall_digits nfr_clean
      in if nums \<noteq> [] \<and> list_all (\<lambda>n. str_in n text_lower) nums then Some nfr
         else if concept_loop text_lower nfr_clean concepts then Some (title_case ucd nfr)
         else if str_in nfr_clean text_lower then Some nfr
         else None)"

fun nfr_loop :: "(string \<Rightarrow> casing) \<Rightarrow> string \<Rightarrow> string list \<Rightarrow> string list" where
  "nfr_loop ucd text_lower [] = []"
| "nfr_loop ucd text_lower (nfr # nfrs) =
     (case check_nfr ucd text_lower nfr of
        None \<Rightarrow> nfr_loop ucd text_lower nfrs
      | Some v \<Rightarrow> v # nfr_loop ucd text_lower nfrs)"

text \<open>Step 3, one entry of the tech stack.\<close>

definition check_tool :: "string \<Rightarrow> string \<times> string \<Rightarrow> string \<times> string" where
  "check_tool text_lower entry =
     (case entry of (layer, tool) \<Rightarrow>
        if tool \<noteq> [] \<and> str_in (lower tool) text_lower then (layer, tool)
        else (layer, ''Not Specified''))"

text \<open>Step 4: \<^verbatim>\<open>re.split(r'[\.\n]', raw_text)[0].strip()\<close>.\<close>

definition first_sentence :: "string \<Rightarrow> string" where
  "first_sentence raw_text =
     strip (takeWhile (\<lambda>c. c \<noteq> CHR ''.'' \<and> c \<noteq> CHR 0x0A) raw_text)"

text \<open>
  \<^verbatim>\<open>_sanitize_profile(profile, raw_text)\<close>. \<^verbatim>\<open>list(set(valid_nfrs))\<close> lists the
  distinct requirements in an order that Python does not specify: \<open>set_order\<close> is
  that listing, a parameter of the model, as are the case data \<open>ucd\<close> and the
  digit limit \<open>max_digits\<close>.
\<close>

definition sanitize_profile ::
  "(string list \<Rightarrow> string list) \<Rightarrow> (string \<Rightarrow> casing) \<Rightarrow> nat \<Rightarrow> profile \<Rightarrow> string
     \<Rightarrow> profile" where
  "sanitize_profile set_order ucd max_digits p raw_text =
     (let text_lower = lower raw_text
      in p\<lparr> budget_inr_per_month :=
               (case budget_in_text max_digits text_lower of
                  None \<Rightarrow> budget_inr_per_month p
                | Some n \<Rightarrow> Some (of_int n)),
             non_functional_requirements :=
               set_order (nfr_loop ucd text_lower (non_functional_requirements p)),
             tech_stack := map (check_tool text_lower) (tech_stack p),
             description := first_sentence raw_text \<rparr>)"

text \<open>Sample input: a description and the profile extracted from it.\<close>

definition shop_text :: string where
  "shop_text = ''Small e-commerce site on AWS using SQLite, budget Rs. 15,000 per month. ''
     @ ''It must be secure and scale to 500 users.''"

definition shop_candidate :: profile where
  "shop_candidate = \<lparr> name = ''E-Shop'', budget_inr_per_month = Some 10000,
     description = ''An online shop'',
     tech_stack = [(''cloud'', ''AWS''), (''database'', ''SQLite''), (''frontend'', ''React'')],
     non_functional_requirements =
       [''high security'', ''scalability'', ''500 users'', ''HIPAA'', ''Scalability''] \<rparr>"


text \<open>
  The requirements on which title-casing is stable: doing it twice is doing it once,
  and it does not change the lower-cased string. A string of ASCII characters is one.
\<close>

definition title_stable :: "(string \<Rightarrow> casing) \<Rightarrow> string \<Rightarrow> bool" where
  "title_stable ucd s =
     (title_case ucd (title_case ucd s) = title_case ucd s
      \<and> lower (title_case ucd s) = lower s)"

definition ascii_str :: "string \<Rightarrow> bool" where
  "ascii_str s = list_all is_ascii s"

text \<open>
  Sample case data: the small letter j with caron (U+01F0, bytes C7 B0) is cased,
  its title-case mapping is \<open>J\<close> followed by the combining caron (U+030C, bytes
  CC 8C) and its lower-case mapping is itself; the combining caron is not cased and
  maps to itself, as does every other character in this sample.
\<close>

definition j_caron :: string where
  "j_caron = [CHR 0xC7, CHR 0xB0]"

definition combining_caron :: string where
  "combining_caron = [CHR 0xCC, CHR 0x8C]"

definition sample_ucd :: "string \<Rightarrow> casing" where
  "sample_ucd ch =
     (if ch = j_caron
      then \<lparr> cased = True, to_title = ''J'' @ combining_caron, to_lower = j_caron \<rparr>
      else \<lparr> cased = False, to_title = ch, to_lower = ch \<rparr>)"

definition caron_text :: string where
  "caron_text = ''A small site. It needs security.''"

definition caron_candidate :: profile where
  "caron_candidate = \<lparr> name = ''Site'', budget_inr_per_month = Some 10000,
     description = ''A site'', tech_stack = [],
     non_functional_requirements = [j_caron @ ''a security''] \<rparr>"

definition reversed_listing :: "string list \<Rightarrow> string list" where
  "reversed_listing xs = rev (remdups xs)"

text \<open>Two candidates whose titles start with three spaces.\<close>

definition candidates_leading_space :: "rec list" where
  "candidates_leading_space =
     [advice ''   Optimize EC2 instances'' 300 ''rightsizing'',
      advice ''   Optimize EC2 storage'' 200 ''rightsizing'']"

section \<open>Properties of the redistribution\<close>

lemma sum_split_filter:
  fixes f :: "'a \<Rightarrow> rat"
  shows "sum_list (map f xs) =
    sum_list (map f (filter P xs)) + sum_list (map f (filter (\<lambda>x. \<not> P x) xs))"
  by (induction xs) auto

lemma sum_add_on_filter:
  fixes a :: rat
  shows "sum_list (map cost_inr (map (\<lambda>r. if P r then r\<lparr>cost_inr := cost_inr r + a\<rparr> else r) xs))
    = sum_list (map cost_inr xs) + of_nat (length (filter P xs)) * a"
  by (induction xs) (auto simp: algebra_simps)

lemma filter_service_map_cost:
  "filter (\<lambda>r. service r = s)
     (map (\<lambda>r. if P r then r\<lparr>cost_inr := cost_inr r + a\<rparr> else r) xs) =
   map (\<lambda>r. if P r then r\<lparr>cost_inr := cost_inr r + a\<rparr> else r)
     (filter (\<lambda>r. service r = s) xs)"
  by (induction xs) auto

lemma redistribute_no_database:
  "database_records (sqlite_redistribute billing) = []"
  unfolding database_records_def sqlite_redistribute_def Let_def
  by (simp add: filter_service_map_cost)

lemma redistribute_has_compute:
  "has_compute (sqlite_redistribute billing) =
   has_compute (filter (\<lambda>r. service r \<noteq> JStr ''Database'') billing)"
  unfolding has_compute_def sqlite_redistribute_def Let_def
  by (simp add: filter_service_map_cost)

lemma redistribute_total:
  "total_cost (sqlite_redistribute billing) =
   total_cost billing -
     (if has_compute (sqlite_redistribute billing) \<and> 0 < database_cost billing
      then 0 else database_cost billing)"
proof -
  let ?kept = "filter (\<lambda>r. service r \<noteq> JStr ''Database'') billing"
  let ?comp = "filter (\<lambda>r. service r = JStr ''Compute'') ?kept"
  have split: "total_cost billing = database_cost billing + total_cost ?kept"
    unfolding total_cost_def database_cost_def
    by (rule sum_split_filter)
  show ?thesis
  proof (cases "?comp \<noteq> [] \<and> 0 < database_cost billing")
    case True
    then have n: "of_nat (length ?comp) \<noteq> (0::rat)" by simp
    have "total_cost (sqlite_redistribute billing) =
        total_cost ?kept + of_nat (length ?comp) * (database_cost billing / of_nat (length ?comp))"
    proof -
      have "sqlite_redistribute billing =
        map (\<lambda>r. if service r = JStr ''Compute''
              then r\<lparr>cost_inr := cost_inr r + database_cost billing / of_nat (length ?comp)\<rparr>
              else r) ?kept"
        using True unfolding sqlite_redistribute_def Let_def database_cost_def
        by (simp only: if_True simp_thms)
      then show ?thesis
        unfolding total_cost_def
        by (simp only: sum_add_on_filter)
    qed
    also have "\<dots> = total_cost ?kept + database_cost billing"
      using n by simp
    finally show ?thesis
      using True split redistribute_has_compute [of billing]
      by (simp add: has_compute_def)
  next
    case False
    then have "sqlite_redistribute billing = ?kept"
      unfolding sqlite_redistribute_def Let_def database_cost_def by auto
    then show ?thesis
      using False split by (auto simp: has_compute_def)
  qed
qed


text \<open>
  Claim C1, as the code has it. For a profile whose database entry mentions SQLite,
  the billing list after the redistribution step holds no record with service
  "Database". When a "Compute" record is left and the removed Database sum is not
  negative, the total of \<open>cost_inr\<close> is exactly the total before. When no "Compute"
  record is left, the total is the total before minus the removed Database sum, and
  it is strictly smaller only when that sum is positive.
\<close>

theorem sqlite_redistribution_total:
  assumes "is_sqlite p"
  shows "database_records (analysis_billing p billing) = []
    \<and> (has_compute (analysis_billing p billing) \<and> 0 \<le> database_cost billing
         \<longrightarrow> total_cost (analysis_billing p billing) = total_cost billing)
    \<and> (\<not> has_compute (analysis_billing p billing)
         \<longrightarrow> total_cost (analysis_billing p billing) = total_cost billing - database_cost billing)
    \<and> (\<not> has_compute (analysis_billing p billing) \<and> 0 < database_cost billing
         \<longrightarrow> total_cost (analysis_billing p billing) < total_cost billing)"
proof -
  have out: "analysis_billing p billing = sqlite_redistribute billing"
    using assms by (simp add: analysis_billing_def)
  have none: "database_records (sqlite_redistribute billing) = []"
    by (rule redistribute_no_database)
  have tot: "total_cost (sqlite_redistribute billing) =
     total_cost billing -
       (if has_compute (sqlite_redistribute billing) \<and> 0 < database_cost billing
        then 0 else database_cost billing)"
    by (rule redistribute_total)
  show ?thesis
    unfolding out using none tot by auto
qed

theorem sqlite_redistribution_total_witness:
  "is_sqlite sqlite_profile
   \<and> has_compute (analysis_billing sqlite_profile billing_two_compute)
   \<and> database_records (analysis_billing sqlite_profile billing_two_compute) = []
   \<and> total_cost (analysis_billing sqlite_profile billing_two_compute) = 350
   \<and> total_cost billing_two_compute = 350
   \<and> \<not> has_compute (analysis_billing sqlite_profile billing_no_compute)
   \<and> database_cost billing_no_compute = 50
   \<and> total_cost (analysis_billing sqlite_profile billing_no_compute)
       = total_cost billing_no_compute - 50
   \<and> total_cost (analysis_billing sqlite_profile billing_no_compute)
       < total_cost billing_no_compute"
proof -
  have s: "is_sqlite sqlite_profile" by code_simp
  have c1: "has_compute (analysis_billing sqlite_profile billing_two_compute)" by code_simp
  have d1: "database_cost billing_two_compute = 50" by code_simp
  have t1: "total_cost billing_two_compute = 350" by code_simp
  have c2: "\<not> has_compute (analysis_billing sqlite_profile billing_no_compute)" by code_simp
  have d2: "database_cost billing_no_compute = 50" by code_simp
  show ?thesis
    using s c1 d1 t1 c2 d2
      sqlite_redistribution_total [OF s, of billing_two_compute]
      sqlite_redistribution_total [OF s, of billing_no_compute]
    by simp
qed

text \<open>
  Claim C1 as stated fails on a billing list without Database and without Compute
  records: nothing is removed, no Compute record exists, and the total does not
  decrease. It also fails on a list whose Database records sum to a negative amount:
  a Compute record exists, nothing is added back, and the total changes.
\<close>

theorem sqlite_redistribution_counterexample:
  "is_sqlite sqlite_profile
   \<and> \<not> has_compute (analysis_billing sqlite_profile billing_storage_only)
   \<and> \<not> (total_cost (analysis_billing sqlite_profile billing_storage_only)
          < total_cost billing_storage_only)
   \<and> has_compute (analysis_billing sqlite_profile billing_negative_database)
   \<and> total_cost (analysis_billing sqlite_profile billing_negative_database)
       \<noteq> total_cost billing_negative_database"
  by code_simp

section \<open>Properties of the recommendation post-processor\<close>

lemma title_cleanup [simp]: "title (cleanup r) = title r"
  by (simp add: cleanup_def)

lemma key_of_cleanup [simp]: "key_of (cleanup r) = key_of r"
  by (simp add: key_of_def)

lemma filter_loop_keys:
  assumes "filter_loop sqlite rs cleaned seen = (cleaned', seen')"
    and "seen = set (map key_of cleaned)"
    and "distinct (map key_of cleaned)"
  shows "seen' = set (map key_of cleaned') \<and> distinct (map key_of cleaned')"
  using assms
proof (induction rs arbitrary: cleaned seen)
  case Nil
  then show ?case by auto
next
  case (Cons r0 rs)
  let ?r = "cleanup r0"
  let ?key = "dedup_key (strip (title ?r))"
  show ?case
  proof (cases "filter_loop sqlite (r0 # rs) cleaned seen = filter_loop sqlite rs cleaned seen")
    case True
    with Cons.prems(1) have "filter_loop sqlite rs cleaned seen = (cleaned', seen')" by simp
    from Cons.IH [OF this Cons.prems(2) Cons.prems(3)] show ?thesis .
  next
    case False
    then have step: "filter_loop sqlite (r0 # rs) cleaned seen =
        filter_loop sqlite rs (cleaned @ [?r]) (insert ?key seen)"
      and new: "?key \<notin> seen"
      by (auto simp: Let_def split: if_splits)
    from step Cons.prems(1)
    have run: "filter_loop sqlite rs (cleaned @ [?r]) (insert ?key seen) = (cleaned', seen')"
      by simp
    have k: "?key = key_of ?r" by (simp add: key_of_def)
    have s: "insert ?key seen = set (map key_of (cleaned @ [?r]))"
      using Cons.prems(2) k by simp
    have d: "distinct (map key_of (cleaned @ [?r]))"
      using Cons.prems(2,3) new k by simp
    from Cons.IH [OF run s d] show ?thesis .
  qed
qed

lemma distinct_map_insort_key:
  "distinct (map g (insort_key f x xs)) = (g x \<notin> g ` set xs \<and> distinct (map g xs))"
  by (induction xs) (auto simp: set_insort_key)

lemma set_map_sort_key: "set (map g (sort_key f xs)) = set (map g xs)"
  by simp

lemma distinct_map_sort_key: "distinct (map g (sort_key f xs)) = distinct (map g xs)"
  by (induction xs) (auto simp: distinct_map_insort_key)

lemma fill_defaults_keys:
  assumes "seen = set (map key_of recs)"
    and "distinct (map key_of recs)"
    and "\<forall>d \<in> set ds. strip (title d) = title d"
  shows "distinct (map key_of (fill_defaults ds recs seen))"
  using assms
proof (induction ds arbitrary: recs seen)
  case Nil
  then show ?case by simp
next
  case (Cons d ds)
  have k: "dedup_key (title d) = key_of d"
    using Cons.prems(3) by (simp add: key_of_def)
  have rest: "\<forall>d \<in> set ds. strip (title d) = title d"
    using Cons.prems(3) by simp
  show ?case
  proof (cases "length recs \<ge> 6")
    case True
    then show ?thesis using Cons.prems(2) by simp
  next
    case False
    show ?thesis
    proof (cases "key_of d \<in> seen")
      case True
      then have "fill_defaults (d # ds) recs seen = fill_defaults ds recs seen"
        using False k by simp
      then show ?thesis
        using Cons.IH [OF Cons.prems(1) Cons.prems(2) rest] by simp
    next
      case new: False
      then have step: "fill_defaults (d # ds) recs seen =
          fill_defaults ds (recs @ [d]) (insert (key_of d) seen)"
        using False k by simp
      have s: "insert (key_of d) seen = set (map key_of (recs @ [d]))"
        using Cons.prems(1) by simp
      have dd: "distinct (map key_of (recs @ [d]))"
        using Cons.prems(1,2) new by simp
      show ?thesis
        using Cons.IH [OF s dd rest] step by simp
    qed
  qed
qed

lemma defaults_stripped: "\<forall>d \<in> set defaults. strip (title d) = title d"
  by code_simp

lemma defaults_keys_distinct: "distinct (map (\<lambda>d. dedup_key (title d)) defaults)"
  by code_simp

lemma length_defaults: "length defaults = 7"
  by (simp add: defaults_def)

lemma process_recs_unfold:
  assumes "filter_loop sqlite recs0 [] {} = (cleaned, seen)"
  shows "process_recs recs0 sqlite =
    take 10 (if length cleaned < 6
             then fill_defaults defaults (sort_key (\<lambda>x. - potential_savings x) cleaned) seen
             else sort_key (\<lambda>x. - potential_savings x) cleaned)"
  using assms by (simp add: process_recs_def)

lemma filter_loop_start:
  assumes "filter_loop sqlite recs0 [] {} = (cleaned, seen)"
  shows "seen = set (map key_of cleaned)" and "distinct (map key_of cleaned)"
  using filter_loop_keys [OF assms] by simp_all

lemma distinct_map_take: "distinct (map g xs) \<Longrightarrow> distinct (map g (take n xs))"
  by (simp add: take_map [symmetric])

lemma process_recs_keys_distinct: "distinct (map key_of (process_recs recs0 sqlite))"
proof -
  obtain cleaned seen where run: "filter_loop sqlite recs0 [] {} = (cleaned, seen)"
    by (cases "filter_loop sqlite recs0 [] {}")
  let ?sorted = "sort_key (\<lambda>x. - potential_savings x) cleaned"
  have s: "seen = set (map key_of ?sorted)"
    using filter_loop_start(1) [OF run] by (simp only: set_map_sort_key)
  have d: "distinct (map key_of ?sorted)"
    using filter_loop_start(2) [OF run] by (simp only: distinct_map_sort_key)
  have "distinct (map key_of (fill_defaults defaults ?sorted seen))"
    by (rule fill_defaults_keys [OF s d defaults_stripped])
  then show ?thesis
    unfolding process_recs_unfold [OF run] using d
    by (auto intro: distinct_map_take)
qed


text \<open>
  Claim C5, as the code has it. For every candidate list and either value of the
  SQLite flag, no two items of the list that the post-processor returns (defaults
  included) have the same dedup key, the lowercased first 15 characters of the
  stripped title (\<^verbatim>\<open>title.strip()[:15].lower()\<close>). The items keep their titles
  unstripped.
\<close>

theorem process_recs_no_shared_key:
  "\<forall>i j. i < j \<and> j < length (process_recs recs sqlite) \<longrightarrow>
     key_of (process_recs recs sqlite ! i) \<noteq> key_of (process_recs recs sqlite ! j)"
proof (intro allI impI)
  fix i j
  assume ij: "i < j \<and> j < length (process_recs recs sqlite)"
  have "distinct (map key_of (process_recs recs sqlite))"
    by (rule process_recs_keys_distinct)
  then have "map key_of (process_recs recs sqlite) ! i \<noteq> map key_of (process_recs recs sqlite) ! j"
    using ij by (simp add: distinct_conv_nth)
  then show "key_of (process_recs recs sqlite ! i) \<noteq> key_of (process_recs recs sqlite ! j)"
    using ij by simp
qed

theorem process_recs_no_shared_key_witness:
  "(0::nat) < 1 \<and> 1 < length (process_recs candidates_with_duplicate False)
   \<and> map title (process_recs candidates_with_duplicate False) =
       [''Rightsize EC2 instances in prod'', ''Enable MFA'',
        ''Configure Cloud Budget Alerts'', ''Enable Resource Tagging'',
        ''Release Unused IPs'', ''Delete Unattached EBS'']
   \<and> key_of (process_recs candidates_with_duplicate False ! 0)
       \<noteq> key_of (process_recs candidates_with_duplicate False ! 1)"
proof -
  have t: "map title (process_recs candidates_with_duplicate False) =
       [''Rightsize EC2 instances in prod'', ''Enable MFA'',
        ''Configure Cloud Budget Alerts'', ''Enable Resource Tagging'',
        ''Release Unused IPs'', ''Delete Unattached EBS'']"
    by code_simp
  have l: "length (map title (process_recs candidates_with_duplicate False)) = 6"
    by (simp only: t) simp
  then have l': "1 < length (process_recs candidates_with_duplicate False)" by simp
  show ?thesis
    using t l' process_recs_no_shared_key [of candidates_with_duplicate False]
    by simp
qed

text \<open>
  Claim C5 as stated fails for titles that start with white space: the two
  candidates below are both returned, the lowercased first 15 characters of the
  titles they hold are the same, and only their dedup keys differ.
\<close>

theorem process_recs_shared_prefix_counterexample:
  "map title (take 2 (process_recs candidates_leading_space False)) =
       [''   Optimize EC2 instances'', ''   Optimize EC2 storage'']
   \<and> lower (take 15 (title (process_recs candidates_leading_space False ! 0))) =
       ''   optimize ec2''
   \<and> lower (take 15 (title (process_recs candidates_leading_space False ! 1))) =
       ''   optimize ec2''
   \<and> key_of (process_recs candidates_leading_space False ! 0) = ''optimize ec2 in''
   \<and> key_of (process_recs candidates_leading_space False ! 1) = ''optimize ec2 st''"
  by code_simp

lemma fill_defaults_length:
  assumes "distinct (map (\<lambda>d. dedup_key (title d)) ds)"
    and "length recs \<le> 6"
  shows "length (fill_defaults ds recs seen) =
    min 6 (length recs + length (filter (\<lambda>d. dedup_key (title d) \<notin> seen) ds))"
  using assms
proof (induction ds arbitrary: recs seen)
  case Nil
  then show ?case by simp
next
  case (Cons d ds)
  let ?k = "\<lambda>d. dedup_key (title d)"
  have dist: "distinct (map ?k ds)" and fresh: "?k d \<notin> ?k ` set ds"
    using Cons.prems(1) by simp_all
  show ?case
  proof (cases "length recs \<ge> 6")
    case True
    then show ?thesis using Cons.prems(2) by simp
  next
    case short: False
    show ?thesis
    proof (cases "?k d \<in> seen")
      case True
      then show ?thesis
        using short Cons.IH [OF dist Cons.prems(2), of seen] by simp
    next
      case False
      have same: "filter (\<lambda>d'. ?k d' \<notin> insert (?k d) seen) ds = filter (\<lambda>d'. ?k d' \<notin> seen) ds"
        using fresh by (intro filter_cong) (auto simp: image_iff)
      have len: "length (recs @ [d]) \<le> 6" using short by simp
      show ?thesis
        using short False Cons.IH [OF dist len, of "insert (?k d) seen"] same
        by simp
    qed
  qed
qed

lemma taken_keys_bound:
  assumes "distinct (map k ds)" and "finite seen"
  shows "length (filter (\<lambda>d. k d \<in> seen) ds) \<le> card seen"
proof -
  let ?hit = "filter (\<lambda>d. k d \<in> seen) ds"
  have "distinct (map k ?hit)"
    using assms(1) by (simp add: distinct_map_filter)
  then have "length ?hit = card (set (map k ?hit))"
    using distinct_card [of "map k ?hit"] by simp
  also have "\<dots> \<le> card seen"
    using assms(2) by (intro card_mono) auto
  finally show ?thesis .
qed

lemma free_keys_bound:
  assumes "distinct (map k ds)" and "finite seen"
  shows "length ds \<le> card seen + length (filter (\<lambda>d. k d \<notin> seen) ds)"
proof -
  have "length ds = length (filter (\<lambda>d. k d \<in> seen) ds) + length (filter (\<lambda>d. k d \<notin> seen) ds)"
    using sum_length_filter_compl [of "\<lambda>d. k d \<in> seen" ds] by simp
  then show ?thesis
    using taken_keys_bound [OF assms] by simp
qed

lemma process_recs_length: "6 \<le> length (process_recs recs0 sqlite) \<and> length (process_recs recs0 sqlite) \<le> 10"
proof -
  obtain cleaned seen where run: "filter_loop sqlite recs0 [] {} = (cleaned, seen)"
    by (cases "filter_loop sqlite recs0 [] {}")
  let ?sorted = "sort_key (\<lambda>x. - potential_savings x) cleaned"
  have seen: "seen = set (map key_of cleaned)" and dist: "distinct (map key_of cleaned)"
    using filter_loop_start [OF run] by simp_all
  have fin: "finite seen" using seen by simp
  have card: "card seen = length cleaned"
    using seen distinct_card [OF dist] by simp
  show ?thesis
  proof (cases "length cleaned < 6")
    case True
    have "length (fill_defaults defaults ?sorted seen) =
        min 6 (length ?sorted + length (filter (\<lambda>d. dedup_key (title d) \<notin> seen) defaults))"
      using True by (intro fill_defaults_length [OF defaults_keys_distinct]) simp
    moreover have "7 \<le> card seen + length (filter (\<lambda>d. dedup_key (title d) \<notin> seen) defaults)"
      using free_keys_bound [OF defaults_keys_distinct fin] length_defaults by simp
    ultimately have "length (fill_defaults defaults ?sorted seen) = 6"
      using card by simp
    then show ?thesis
      using True unfolding process_recs_unfold [OF run] by simp
  next
    case False
    then show ?thesis
      unfolding process_recs_unfold [OF run] by simp
  qed
qed


text \<open>
  Claim C3. For every candidate list (the empty one included) and either value of
  the SQLite flag, the post-processor returns at least 6 and at most 10 items. The
  proviso of the claim always holds: fewer than six retained items occupy fewer than
  six keys, so at least two of the seven defaults are free.
\<close>

theorem process_recs_length_bounds:
  "6 \<le> length (process_recs recs sqlite) \<and> length (process_recs recs sqlite) \<le> 10"
  by (rule process_recs_length)

theorem process_recs_length_bounds_witness:
  "length (process_recs [] True) = 6
   \<and> 6 \<le> length (process_recs candidates_with_duplicate False)
   \<and> length (process_recs candidates_with_duplicate False) \<le> 10"
proof -
  have "length (process_recs [] True) = 6" by code_simp
  then show ?thesis
    using process_recs_length_bounds [of candidates_with_duplicate False] by simp
qed

section \<open>Properties of the savings cap\<close>










lemma length_cap_savings [simp]: "length (cap_savings avg recs) = length recs"
  by (simp add: cap_savings_def Let_def)











section \<open>Properties of the billing generator\<close>

lemma length_fallback_month [simp]: "length (fallback_month budget m) = 5"
  by (simp add: fallback_month_def)

lemma length_concat_fallback:
  "length (concat (map (fallback_month budget) months)) = 5 * length months"
  by (induction months) simp_all

lemma concat_fallback_nth:
  assumes "i < length months"
  shows "concat (map (fallback_month budget) months) ! (5 * i + 1) =
    fallback_month budget (months ! i) ! 1"
  using assms
proof (induction months arbitrary: i)
  case Nil
  then show ?case by simp
next
  case (Cons m ms)
  show ?case
  proof (cases i)
    case 0
    then show ?thesis by (simp add: nth_append)
  next
    case (Suc j)
    then have j: "j < length ms" using Cons.prems by simp
    have "5 * i + 1 = 5 + (5 * j + 1)" using Suc by simp
    then have "concat (map (fallback_month budget) (m # ms)) ! (5 * i + 1) =
        concat (map (fallback_month budget) ms) ! (5 * j + 1)"
      by (simp add: nth_append)
    then show ?thesis using Cons.IH [OF j] Suc by simp
  qed
qed

lemma fallback_database_record:
  assumes "i < length months" and "i < 4"
  shows "5 * i + 1 < length (generate_fallback budget months)"
    and "generate_fallback budget months ! (5 * i + 1) =
      \<lparr> month = JStr (months ! i), service = JStr ''Database'',
        cost_inr = of_int (py_int (budget * (3 / 10))) \<rparr>"
proof -
  have lt: "5 * i + 1 < 20" using assms(2) by simp
  have lt': "5 * i + 1 < 5 * length months" using assms(1) by simp
  show "5 * i + 1 < length (generate_fallback budget months)"
    using lt lt' by (simp add: generate_fallback_def length_concat_fallback)
  have "generate_fallback budget months ! (5 * i + 1) =
      concat (map (fallback_month budget) months) ! (5 * i + 1)"
    using lt by (simp add: generate_fallback_def)
  also have "\<dots> = fallback_month budget (months ! i) ! 1"
    by (rule concat_fallback_nth [OF assms(1)])
  finally show "generate_fallback budget months ! (5 * i + 1) =
      \<lparr> month = JStr (months ! i), service = JStr ''Database'',
        cost_inr = of_int (py_int (budget * (3 / 10))) \<rparr>"
    by (simp add: fallback_month_def)
qed

lemma length_recent_months [simp]: "length (get_recent_months now n) = n"
  by (simp add: get_recent_months_def)

lemma generate_fallback_path:
  assumes "\<not> truthy raw_recs \<or> \<not> is_list raw_recs"
  shows "generate_mock_billing str_float draws now p raw_recs =
    Inr (generate_fallback (get_budget 5000 p) (get_recent_months now 4))"
  using assms by (simp add: generate_mock_billing_def Let_def)

lemma generate_ignores_tech_stack:
  "generate_mock_billing str_float draws now (p\<lparr>tech_stack := ts\<rparr>) raw_recs =
   generate_mock_billing str_float draws now p raw_recs"
  by (simp add: generate_mock_billing_def get_budget_def)


text \<open>
  Claim C9. For every budget (the non-negative ones included) and every list of
  expected months, the deterministic fallback holds, for each of the first four months
  (the 20-record cap keeps four groups of five), a record with service "Database" and
  \<open>cost_inr = int(budget * 0.3)\<close> for that month, at position \<open>5 i + 1\<close>. The
  generator takes the fallback whenever the response is empty or not a list, and its
  result does not depend on the tech stack of the profile: SQLite projects get the
  same Database records.
\<close>

theorem fallback_emits_database:
  assumes "i < length months" and "i < 4"
  shows "5 * i + 1 < length (generate_fallback budget months)
    \<and> generate_fallback budget months ! (5 * i + 1) =
        \<lparr> month = JStr (months ! i), service = JStr ''Database'',
          cost_inr = of_int (py_int (budget * (3 / 10))) \<rparr>
    \<and> generate_mock_billing str_float draws now (p\<lparr>tech_stack := ts\<rparr>) raw_recs =
        generate_mock_billing str_float draws now p raw_recs
    \<and> (\<not> truthy raw_recs \<or> \<not> is_list raw_recs \<longrightarrow>
         generate_mock_billing str_float draws now p raw_recs =
           Inr (generate_fallback (get_budget 5000 p) (get_recent_months now 4)))"
proof (intro conjI impI)
  show "5 * i + 1 < length (generate_fallback budget months)"
    by (rule fallback_database_record(1) [OF assms])
  show "generate_fallback budget months ! (5 * i + 1) =
        \<lparr> month = JStr (months ! i), service = JStr ''Database'',
          cost_inr = of_int (py_int (budget * (3 / 10))) \<rparr>"
    by (rule fallback_database_record(2) [OF assms])
  show "generate_mock_billing str_float draws now (p\<lparr>tech_stack := ts\<rparr>) raw_recs =
        generate_mock_billing str_float draws now p raw_recs"
    by (rule generate_ignores_tech_stack)
  show "generate_mock_billing str_float draws now p raw_recs =
           Inr (generate_fallback (get_budget 5000 p) (get_recent_months now 4))"
    if "\<not> truthy raw_recs \<or> \<not> is_list raw_recs"
    using that by (rule generate_fallback_path)
qed

theorem fallback_emits_database_witness:
  "(3::nat) < length (get_recent_months (2026, 11) 4) \<and> (3::nat) < 4
   \<and> is_sqlite sqlite_profile
   \<and> \<not> truthy JNull
   \<and> generate_mock_billing no_str_float even_draws (2026, 11) sqlite_profile JNull =
       Inr (generate_fallback 15000 (get_recent_months (2026, 11) 4))
   \<and> 16 < length (generate_fallback 15000 (get_recent_months (2026, 11) 4))
   \<and> generate_fallback 15000 (get_recent_months (2026, 11) 4) ! 16 =
       \<lparr> month = JStr ''2026-11'', service = JStr ''Database'', cost_inr = 4500 \<rparr>"
proof -
  have l: "(3::nat) < length (get_recent_months (2026, 11) 4)" by simp
  have m: "get_recent_months (2026, 11) 4 ! 3 = ''2026-11''" by code_simp
  have c: "of_int (py_int (15000 * (3 / 10))) = (4500::rat)" by code_simp
  have s: "is_sqlite sqlite_profile" by code_simp
  have b: "get_budget 5000 sqlite_profile = 15000" by code_simp
  have n: "\<not> truthy JNull" by simp
  show ?thesis
    using l m c s b n
      fallback_emits_database [OF l, where budget = 15000 and str_float = no_str_float
        and draws = even_draws and now = "(2026, 11)" and p = sqlite_profile
        and ts = "tech_stack sqlite_profile" and raw_recs = JNull]
    by simp
qed


lemma normalize_group_month [simp]:
  "map month (normalize_group budget u recs) = map month recs"
  by (simp add: normalize_group_def Let_def comp_def)

lemma normalize_group_cost:
  assumes "r \<in> set (normalize_group budget u recs)"
  shows "cost_inr r \<in> \<int> \<and> 10 \<le> cost_inr r"
  using assms by (auto simp: normalize_group_def Let_def split: if_splits)

lemma group_loop_kept:
  assumes "group_loop months valid = Inr kept"
  shows "kept = filter (\<lambda>r. \<exists>m \<in> set months. month r = JStr m) valid"
  using assms
proof (induction valid arbitrary: kept)
  case Nil
  then show ?case by simp
next
  case (Cons r rs)
  from Cons.prems obtain inside kept' where
    mi: "month_in months (month r) = Inr inside" and
    gl: "group_loop months rs = Inr kept'" and
    k: "kept = (if inside then r # kept' else kept')"
    by (auto split: sum.splits)
  have "inside = (\<exists>m \<in> set months. month r = JStr m)"
    using mi by (cases "month r") auto
  then show ?case using Cons.IH [OF gl] k by simp
qed

lemma group_loop_outside:
  assumes "\<forall>r \<in> set valid. month_in months (month r) = Inr False"
  shows "group_loop months valid = Inr []"
  using assms by (induction valid) auto

lemma set_dict_keys [simp]: "set (dict_keys months) = set months"
  by (simp add: dict_keys_def)

lemma generate_main_path:
  assumes "repair_loop str_float items = Inr valid" and "valid \<noteq> []"
    and "group_loop (get_recent_months now 4) valid = Inr kept"
  shows "generate_mock_billing str_float draws now p (JArr items) =
    Inr (take 20 (concat (map
      (\<lambda>m. normalize_group (get_budget 5000 p) (draws m) (filter (\<lambda>r. month r = JStr m) kept))
      (dict_keys (get_recent_months now 4)))))"
proof -
  have "items \<noteq> []" using assms(1,2) by auto
  then show ?thesis
    using assms by (simp add: generate_mock_billing_def Let_def is_list_def)
qed

lemma generate_main_path_error:
  assumes "repair_loop str_float items = Inr valid" and "valid \<noteq> []"
    and "generate_mock_billing str_float draws now p (JArr items) = Inr out"
  shows "\<exists>kept. group_loop (get_recent_months now 4) valid = Inr kept"
proof -
  have "items \<noteq> []" using assms(1,2) by auto
  then show ?thesis
    using assms by (cases "group_loop (get_recent_months now 4) valid")
      (simp_all add: generate_mock_billing_def Let_def is_list_def)
qed

lemma normalized_members:
  assumes "r \<in> set (take 20 (concat (map
      (\<lambda>m. normalize_group budget (draws m) (filter (\<lambda>r. month r = JStr m) kept)) ms)))"
  shows "(\<exists>m \<in> set ms. month r = JStr m) \<and> cost_inr r \<in> \<int> \<and> 10 \<le> cost_inr r"
proof -
  from assms have "r \<in> set (concat (map
      (\<lambda>m. normalize_group budget (draws m) (filter (\<lambda>r. month r = JStr m) kept)) ms))"
    by (rule in_set_takeD)
  then obtain m where m: "m \<in> set ms"
    and r: "r \<in> set (normalize_group budget (draws m) (filter (\<lambda>r. month r = JStr m) kept))"
    by auto
  from r have "month r \<in> set (map month (normalize_group budget (draws m)
      (filter (\<lambda>r. month r = JStr m) kept)))"
    by (simp only: set_map) (rule imageI)
  then have "month r = JStr m" by (simp only: normalize_group_month) auto
  then show ?thesis using m normalize_group_cost [OF r] by blast
qed

text \<open>
  Claim C10. On the path that does not take the fallback (the response is a list and
  the repair loop keeps at least one record), every record of the returned list has a
  month among the four expected recent months. Valid records with a month outside
  that window are dropped and the fallback is not taken: when the test
  \<^verbatim>\<open>r["month"] in records_by_month\<close> is false for every valid record, the function
  returns the empty list.
\<close>

theorem generate_months_in_window:
  assumes "repair_loop str_float items = Inr valid" and "valid \<noteq> []"
  shows "length (get_recent_months now 4) = 4
    \<and> (\<forall>out. generate_mock_billing str_float draws now p (JArr items) = Inr out \<longrightarrow>
          (\<forall>r \<in> set out. \<exists>m \<in> set (get_recent_months now 4). month r = JStr m))
    \<and> ((\<forall>r \<in> set valid. month_in (get_recent_months now 4) (month r) = Inr False) \<longrightarrow>
          generate_mock_billing str_float draws now p (JArr items) = Inr [])"
proof (intro conjI allI impI ballI)
  show "length (get_recent_months now 4) = 4" by simp
next
  fix out r
  assume out: "generate_mock_billing str_float draws now p (JArr items) = Inr out"
    and r: "r \<in> set out"
  from generate_main_path_error [OF assms out]
  obtain kept where kept: "group_loop (get_recent_months now 4) valid = Inr kept" ..
  have "out = take 20 (concat (map
      (\<lambda>m. normalize_group (get_budget 5000 p) (draws m) (filter (\<lambda>r. month r = JStr m) kept))
      (dict_keys (get_recent_months now 4))))"
    using generate_main_path [OF assms kept, of draws p] out by simp
  with r have "\<exists>m \<in> set (dict_keys (get_recent_months now 4)). month r = JStr m"
    using normalized_members by blast
  then show "\<exists>m \<in> set (get_recent_months now 4). month r = JStr m" by simp
next
  assume outside: "\<forall>r \<in> set valid. month_in (get_recent_months now 4) (month r) = Inr False"
  then have kept: "group_loop (get_recent_months now 4) valid = Inr []"
    by (rule group_loop_outside)
  show "generate_mock_billing str_float draws now p (JArr items) = Inr []"
    using generate_main_path [OF assms kept, of draws p]
    by (simp add: normalize_group_def)
qed

theorem generate_months_in_window_witness:
  "repair_loop no_str_float stale_items = Inr [rec_of ''2025-01'' ''EC2'' 900]
   \<and> generate_mock_billing no_str_float even_draws (2026, 11) aws_profile (JArr stale_items) = Inr []
   \<and> repair_loop no_str_float fresh_items =
       Inr [rec_of ''2026-10'' ''EC2'' 100, rec_of ''2026-10'' ''S3'' 200,
            rec_of ''2026-10'' ''RDS'' 300, rec_of ''2026-09'' ''EC2'' (- 5),
            rec_of ''2025-01'' ''EC2'' 900]
   \<and> generate_mock_billing no_str_float even_draws (2026, 11) aws_profile (JArr fresh_items) =
       Inr [rec_of ''2026-09'' ''EC2'' 1000, rec_of ''2026-10'' ''EC2'' 166,
            rec_of ''2026-10'' ''S3'' 333, rec_of ''2026-10'' ''RDS'' 500]
   \<and> (\<exists>m \<in> set (get_recent_months (2026, 11) 4). month (rec_of ''2026-09'' ''EC2'' 1000) = JStr m)"
proof -
  have months: "get_recent_months (2026, 11) 4 = [''2026-08'', ''2026-09'', ''2026-10'', ''2026-11'']"
    by code_simp
  have r1: "repair_loop no_str_float stale_items = Inr [rec_of ''2025-01'' ''EC2'' 900]"
    by code_simp
  have n1: "[rec_of ''2025-01'' ''EC2'' 900] \<noteq> []" by simp
  have o1: "\<forall>r \<in> set [rec_of ''2025-01'' ''EC2'' 900].
      month_in (get_recent_months (2026, 11) 4) (month r) = Inr False"
    unfolding months by (simp add: rec_of_def)
  have g1: "generate_mock_billing no_str_float even_draws (2026, 11) aws_profile (JArr stale_items) = Inr []"
    using generate_months_in_window [OF r1 n1, of "(2026, 11)" even_draws aws_profile] o1
    by blast
  have r2: "repair_loop no_str_float fresh_items =
       Inr [rec_of ''2026-10'' ''EC2'' 100, rec_of ''2026-10'' ''S3'' 200,
            rec_of ''2026-10'' ''RDS'' 300, rec_of ''2026-09'' ''EC2'' (- 5),
            rec_of ''2025-01'' ''EC2'' 900]"
    by code_simp
  have n2: "[rec_of ''2026-10'' ''EC2'' 100, rec_of ''2026-10'' ''S3'' 200,
            rec_of ''2026-10'' ''RDS'' 300, rec_of ''2026-09'' ''EC2'' (- 5),
            rec_of ''2025-01'' ''EC2'' 900] \<noteq> []" by simp
  have g2: "generate_mock_billing no_str_float even_draws (2026, 11) aws_profile (JArr fresh_items) =
       Inr [rec_of ''2026-09'' ''EC2'' 1000, rec_of ''2026-10'' ''EC2'' 166,
            rec_of ''2026-10'' ''S3'' 333, rec_of ''2026-10'' ''RDS'' 500]"
    by code_simp
  have "\<forall>r \<in> set [rec_of ''2026-09'' ''EC2'' 1000, rec_of ''2026-10'' ''EC2'' 166,
            rec_of ''2026-10'' ''S3'' 333, rec_of ''2026-10'' ''RDS'' 500].
      \<exists>m \<in> set (get_recent_months (2026, 11) 4). month r = JStr m"
    using generate_months_in_window [OF r2 n2, of "(2026, 11)" even_draws aws_profile] g2
    by blast
  then have w2: "\<exists>m \<in> set (get_recent_months (2026, 11) 4). month (rec_of ''2026-09'' ''EC2'' 1000) = JStr m"
    by simp
  show ?thesis using r1 g1 r2 g2 w2 by blast
qed


text \<open>
  Claim C4 is broken by the code at the response that repeats the example record of
  the prompt (month 2025-01) when the clock shows November 2026: the record is
  valid, so the fallback is not taken, its month is outside the window, and the
  generator returns the empty list, whatever the profile, the draws and the parser.
\<close>

theorem generate_mock_billing_empty_output:
  "generate_mock_billing str_float draws (2026, 11) p stale_response = Inr []"
  by code_simp

theorem generate_mock_billing_empty_output_witness:
  "truthy stale_response \<and> is_list stale_response
   \<and> repair_loop no_str_float stale_items = Inr [rec_of ''2025-01'' ''EC2'' 900]
   \<and> get_recent_months (2026, 11) 4 = [''2026-08'', ''2026-09'', ''2026-10'', ''2026-11'']
   \<and> generate_mock_billing no_str_float even_draws (2026, 11) sqlite_profile stale_response
       = Inr []"
proof -
  have a: "truthy stale_response \<and> is_list stale_response" by code_simp
  have b: "repair_loop no_str_float stale_items = Inr [rec_of ''2025-01'' ''EC2'' 900]"
    by code_simp
  have c: "get_recent_months (2026, 11) 4 = [''2026-08'', ''2026-09'', ''2026-10'', ''2026-11'']"
    by code_simp
  show ?thesis
    using a b c generate_mock_billing_empty_output [of no_str_float even_draws sqlite_profile]
    by blast
qed

lemma repair_int:
  assumes "repair str_float r = Inr (Some b)"
  shows "cost_inr b \<in> \<int>"
  using assms unfolding repair_def
  by (auto split: sum.splits if_splits json.splits option.splits)

lemma repair_loop_int:
  assumes "repair_loop str_float items = Inr valid"
  shows "\<forall>r \<in> set valid. cost_inr r \<in> \<int>"
  using assms
proof (induction items arbitrary: valid)
  case Nil
  then show ?case by simp
next
  case (Cons x xs)
  show ?case
  proof (cases "repair str_float x")
    case (Inl e)
    then show ?thesis using Cons.prems by simp
  next
    case (Inr ob)
    show ?thesis
    proof (cases ob)
      case None
      then show ?thesis using Inr Cons by simp
    next
      case (Some b)
      with Inr Cons.prems obtain bs where
        bs: "repair_loop str_float xs = Inr bs" and v: "valid = b # bs"
        by (auto split: sum.splits)
      have "cost_inr b \<in> \<int>" using Inr Some by (intro repair_int) simp
      then show ?thesis using Cons.IH [OF bs] v by simp
    qed
  qed
qed

lemma py_int_nonneg: "0 \<le> q \<Longrightarrow> 0 \<le> py_int q"
  by (simp add: py_int_def)

lemma fallback_month_costs:
  assumes "r \<in> set (fallback_month budget m)"
  shows "cost_inr r \<in> \<int> \<and> (0 \<le> budget \<longrightarrow> 0 \<le> cost_inr r)"
  using assms by (auto simp: fallback_month_def intro!: py_int_nonneg)

lemma fallback_costs:
  assumes "r \<in> set (generate_fallback budget months)"
  shows "cost_inr r \<in> \<int> \<and> (0 \<le> budget \<longrightarrow> 0 \<le> cost_inr r)"
proof -
  from assms have "r \<in> set (concat (map (fallback_month budget) months))"
    unfolding generate_fallback_def by (rule in_set_takeD)
  then obtain m where "r \<in> set (fallback_month budget m)" by auto
  then show ?thesis by (rule fallback_month_costs)
qed

lemma generate_cases:
  assumes "generate_mock_billing str_float draws now p raw_recs = Inr out"
  shows "out = generate_fallback (get_budget 5000 p) (get_recent_months now 4)
    \<or> (\<exists>kept. out = take 20 (concat (map
          (\<lambda>m. normalize_group (get_budget 5000 p) (draws m)
                  (filter (\<lambda>r. month r = JStr m) kept))
          (dict_keys (get_recent_months now 4)))))"
  using assms unfolding generate_mock_billing_def Let_def
  by (auto split: if_splits json.splits sum.splits)

lemma generate_costs:
  assumes "generate_mock_billing str_float draws now p raw_recs = Inr out"
    and "r \<in> set out"
  shows "cost_inr r \<in> \<int> \<and> (0 \<le> get_budget 5000 p \<longrightarrow> 0 \<le> cost_inr r)"
proof -
  from generate_cases [OF assms(1)] show ?thesis
  proof
    assume "out = generate_fallback (get_budget 5000 p) (get_recent_months now 4)"
    then show ?thesis using assms(2) fallback_costs by blast
  next
    assume "\<exists>kept. out = take 20 (concat (map
          (\<lambda>m. normalize_group (get_budget 5000 p) (draws m)
                  (filter (\<lambda>r. month r = JStr m) kept))
          (dict_keys (get_recent_months now 4))))"
    then obtain kept where "out = take 20 (concat (map
          (\<lambda>m. normalize_group (get_budget 5000 p) (draws m)
                  (filter (\<lambda>r. month r = JStr m) kept))
          (dict_keys (get_recent_months now 4))))" ..
    with assms(2) have "cost_inr r \<in> \<int> \<and> 10 \<le> cost_inr r"
      using normalized_members by blast
    then show ?thesis by auto
  qed
qed

lemma generate_main_costs:
  assumes "repair_loop str_float items = Inr valid" and "valid \<noteq> []"
    and "generate_mock_billing str_float draws now p (JArr items) = Inr out"
    and "r \<in> set out"
  shows "10 \<le> cost_inr r"
proof -
  from generate_main_path_error [OF assms(1,2,3)]
  obtain kept where kept: "group_loop (get_recent_months now 4) valid = Inr kept" ..
  have "out = take 20 (concat (map
      (\<lambda>m. normalize_group (get_budget 5000 p) (draws m) (filter (\<lambda>r. month r = JStr m) kept))
      (dict_keys (get_recent_months now 4))))"
    using generate_main_path [OF assms(1,2) kept, of draws p] assms(3) by simp
  with assms(4) show ?thesis using normalized_members by blast
qed

lemma nonneg_map_add:
  assumes "\<forall>r \<in> set xs. 0 \<le> cost_inr r" and "0 \<le> a"
    and "r \<in> set (map (\<lambda>r. if P r then r\<lparr>cost_inr := cost_inr r + a\<rparr> else r) xs)"
  shows "0 \<le> cost_inr r"
  using assms by auto

lemma redistribute_nonneg:
  assumes "\<forall>r \<in> set billing. 0 \<le> cost_inr r" and "r \<in> set (sqlite_redistribute billing)"
  shows "0 \<le> cost_inr r"
proof -
  let ?db = "sum_list (map cost_inr (filter (\<lambda>r. service r = JStr ''Database'') billing))"
  let ?kept = "filter (\<lambda>r. service r \<noteq> JStr ''Database'') billing"
  let ?comp = "filter (\<lambda>r. service r = JStr ''Compute'') ?kept"
  have kept: "\<forall>r \<in> set ?kept. 0 \<le> cost_inr r" using assms(1) by simp
  show ?thesis
  proof (cases "?comp \<noteq> [] \<and> 0 < ?db")
    case True
    then have add: "0 \<le> ?db / of_nat (length ?comp)" by simp
    have "sqlite_redistribute billing =
        map (\<lambda>r. if service r = JStr ''Compute''
              then r\<lparr>cost_inr := cost_inr r + ?db / of_nat (length ?comp)\<rparr>
              else r) ?kept"
      using True unfolding sqlite_redistribute_def Let_def
      by (simp only: if_True simp_thms)
    with assms(2) have "r \<in> set (map (\<lambda>r. if service r = JStr ''Compute''
              then r\<lparr>cost_inr := cost_inr r + ?db / of_nat (length ?comp)\<rparr>
              else r) ?kept)" by simp
    from nonneg_map_add [OF kept add this] show ?thesis .
  next
    case False
    then have "sqlite_redistribute billing = ?kept"
      unfolding sqlite_redistribute_def Let_def by auto
    then show ?thesis using assms by simp
  qed
qed

lemma analysis_billing_nonneg:
  assumes "\<forall>r \<in> set billing. 0 \<le> cost_inr r" and "r \<in> set (analysis_billing p billing)"
  shows "0 \<le> cost_inr r"
  using assms redistribute_nonneg [OF assms(1), of r]
  by (auto simp: analysis_billing_def split: if_splits)


lemma not_integer_130_3: "(130 / 3 :: rat) \<notin> \<int>"
proof
  assume "(130 / 3 :: rat) \<in> \<int>"
  then obtain z :: int where "(130 / 3 :: rat) = of_int z" by (rule Ints_cases)
  then have "(of_int (z * 3) :: rat) = of_int 130" by simp
  then have "z * 3 = 130" by (simp only: of_int_eq_iff)
  then show False by presburger
qed

text \<open>
  Claim C6, as the code has it. Every record kept by the repair step has an integer
  \<open>cost_inr\<close>, which may be negative. Every record that \<open>generate_mock_billing\<close>
  returns has an integer \<open>cost_inr\<close>; it is at least 10 on the normalised path and
  not negative on any path when the budget is not negative. The SQLite redistribution
  of the analyzer keeps non-negative costs non-negative, but adds a fraction, so the
  result need not be an integer.
\<close>

theorem cost_inr_integer_nonneg:
  "(\<forall>valid. repair_loop str_float items = Inr valid \<longrightarrow> (\<forall>r \<in> set valid. cost_inr r \<in> \<int>))
   \<and> (\<forall>out. generate_mock_billing str_float draws now p raw_recs = Inr out \<longrightarrow>
         (\<forall>r \<in> set out. cost_inr r \<in> \<int> \<and> (0 \<le> get_budget 5000 p \<longrightarrow> 0 \<le> cost_inr r)))
   \<and> (\<forall>valid out. repair_loop str_float items = Inr valid \<and> valid \<noteq> []
           \<and> generate_mock_billing str_float draws now p (JArr items) = Inr out \<longrightarrow>
         (\<forall>r \<in> set out. 10 \<le> cost_inr r))
   \<and> ((\<forall>r \<in> set billing. 0 \<le> cost_inr r) \<longrightarrow>
         (\<forall>r \<in> set (analysis_billing q billing). 0 \<le> cost_inr r))"
proof (intro conjI allI impI ballI)
  fix valid r
  assume "repair_loop str_float items = Inr valid" and "r \<in> set valid"
  then show "cost_inr r \<in> \<int>" using repair_loop_int by blast
next
  fix out r
  assume g: "generate_mock_billing str_float draws now p raw_recs = Inr out" and r: "r \<in> set out"
  show "cost_inr r \<in> \<int>" using generate_costs [OF g r] by simp
  show "0 \<le> cost_inr r" if "0 \<le> get_budget 5000 p"
    using generate_costs [OF g r] that by simp
next
  fix valid out r
  assume "repair_loop str_float items = Inr valid \<and> valid \<noteq> []
      \<and> generate_mock_billing str_float draws now p (JArr items) = Inr out"
    and r: "r \<in> set out"
  then show "10 \<le> cost_inr r" using generate_main_costs by blast
next
  fix r
  assume "\<forall>r \<in> set billing. 0 \<le> cost_inr r" and "r \<in> set (analysis_billing q billing)"
  then show "0 \<le> cost_inr r" by (rule analysis_billing_nonneg)
qed

theorem cost_inr_integer_nonneg_witness:
  "repair_loop no_str_float fresh_items =
       Inr [rec_of ''2026-10'' ''EC2'' 100, rec_of ''2026-10'' ''S3'' 200,
            rec_of ''2026-10'' ''RDS'' 300, rec_of ''2026-09'' ''EC2'' (- 5),
            rec_of ''2025-01'' ''EC2'' 900]
   \<and> cost_inr (rec_of ''2026-09'' ''EC2'' (- 5)) \<in> \<int>
   \<and> generate_mock_billing no_str_float even_draws (2026, 11) aws_profile (JArr fresh_items) =
       Inr [rec_of ''2026-09'' ''EC2'' 1000, rec_of ''2026-10'' ''EC2'' 166,
            rec_of ''2026-10'' ''S3'' 333, rec_of ''2026-10'' ''RDS'' 500]
   \<and> 0 \<le> get_budget 5000 aws_profile
   \<and> cost_inr (rec_of ''2026-10'' ''EC2'' 166) \<in> \<int>
   \<and> 10 \<le> cost_inr (rec_of ''2026-10'' ''EC2'' 166)
   \<and> total_cost billing_two_compute = 350
   \<and> analysis_billing sqlite_profile billing_two_compute =
       [rec_of ''2025-01'' ''Compute'' 125, rec_of ''2025-02'' ''Compute'' 225]
   \<and> 0 \<le> cost_inr (rec_of ''2025-01'' ''Compute'' 125)"
proof -
  let ?valid = "[rec_of ''2026-10'' ''EC2'' 100, rec_of ''2026-10'' ''S3'' 200,
            rec_of ''2026-10'' ''RDS'' 300, rec_of ''2026-09'' ''EC2'' (- 5),
            rec_of ''2025-01'' ''EC2'' 900]"
  let ?out = "[rec_of ''2026-09'' ''EC2'' 1000, rec_of ''2026-10'' ''EC2'' 166,
            rec_of ''2026-10'' ''S3'' 333, rec_of ''2026-10'' ''RDS'' 500]"
  let ?after = "[rec_of ''2025-01'' ''Compute'' 125, rec_of ''2025-02'' ''Compute'' 225]"
  note th = cost_inr_integer_nonneg [where str_float = no_str_float and items = fresh_items
      and draws = even_draws and now = "(2026, 11)" and p = aws_profile
      and raw_recs = "JArr fresh_items" and billing = billing_two_compute
      and q = sqlite_profile]
  have r: "repair_loop no_str_float fresh_items = Inr ?valid" by code_simp
  have g: "generate_mock_billing no_str_float even_draws (2026, 11) aws_profile (JArr fresh_items)
      = Inr ?out" by code_simp
  have b: "0 \<le> get_budget 5000 aws_profile" by code_simp
  have t: "total_cost billing_two_compute = 350" by code_simp
  have a: "analysis_billing sqlite_profile billing_two_compute = ?after" by code_simp
  have nn: "\<forall>r \<in> set billing_two_compute. 0 \<le> cost_inr r"
    by (simp add: billing_two_compute_def rec_of_def)
  have w1: "\<forall>r \<in> set ?valid. cost_inr r \<in> \<int>"
    using th r by blast
  have w2: "\<forall>r \<in> set ?out. cost_inr r \<in> \<int> \<and> (0 \<le> get_budget 5000 aws_profile \<longrightarrow> 0 \<le> cost_inr r)"
    using th g by blast
  have ne: "?valid \<noteq> []" by simp
  have w3: "\<forall>r \<in> set ?out. 10 \<le> cost_inr r"
    using th r g ne by blast
  have w4: "\<forall>r \<in> set ?after. 0 \<le> cost_inr r"
    using th nn unfolding a by blast
  have c1: "cost_inr (rec_of ''2026-09'' ''EC2'' (- 5)) \<in> \<int>" using w1 by simp
  have c2: "cost_inr (rec_of ''2026-10'' ''EC2'' 166) \<in> \<int>" using w2 by simp
  have c3: "10 \<le> cost_inr (rec_of ''2026-10'' ''EC2'' 166)" using w3 by simp
  have c4: "0 \<le> cost_inr (rec_of ''2025-01'' ''Compute'' 125)" using w4 by simp
  show ?thesis using r g b t a c1 c2 c3 c4 by blast
qed

text \<open>
  Claim C6 as stated fails twice. Right after the repair step a record may hold a
  negative integer (the cost \<open>-5\<close> is kept as it is). After the SQLite
  redistribution a Compute record holds \<open>10 + 100 / 3\<close>, which is not an integer.
\<close>

theorem cost_inr_integer_counterexample:
  "repair_loop no_str_float negative_items = Inr [rec_of ''2026-10'' ''EC2'' (- 5)]
   \<and> cost_inr (rec_of ''2026-10'' ''EC2'' (- 5)) < 0
   \<and> is_sqlite sqlite_profile
   \<and> cost_inr (analysis_billing sqlite_profile billing_thirds ! 0) = 130 / 3
   \<and> cost_inr (analysis_billing sqlite_profile billing_thirds ! 0) \<notin> \<int>"
proof -
  have a: "repair_loop no_str_float negative_items = Inr [rec_of ''2026-10'' ''EC2'' (- 5)]"
    by code_simp
  have b: "cost_inr (rec_of ''2026-10'' ''EC2'' (- 5)) < 0" by (simp add: rec_of_def)
  have c: "is_sqlite sqlite_profile" by code_simp
  have d: "cost_inr (analysis_billing sqlite_profile billing_thirds ! 0) = 130 / 3" by code_simp
  have e: "cost_inr (analysis_billing sqlite_profile billing_thirds ! 0) \<notin> \<int>"
    unfolding d by (rule not_integer_130_3)
  show ?thesis using a b c d e by blast
qed


section \<open>Properties of the validated query loop\<close>

lemma query_loop_Suc:
  "query_loop llm v prompt (Suc n) i cur =
     (if accepted v (llm i cur) then (Some (llm i cur), [llm i cur])
      else (fst (query_loop llm v prompt n (Suc i) (feedback_prompt v prompt (llm i cur))),
            llm i cur # snd (query_loop llm v prompt n (Suc i)
                               (feedback_prompt v prompt (llm i cur)))))"
  by (simp add: accepted_def Let_def split: prod.splits)

lemma query_loop_length: "length (snd (query_loop llm v prompt n i cur)) \<le> n"
proof (induction n arbitrary: i cur)
  case 0
  then show ?case by simp
next
  case (Suc n)
  show ?case
    unfolding query_loop_Suc using Suc.IH by auto
qed

lemma query_loop_find:
  "fst (query_loop llm v prompt n i cur) = find (accepted v) (snd (query_loop llm v prompt n i cur))"
proof (induction n arbitrary: i cur)
  case 0
  then show ?case by simp
next
  case (Suc n)
  show ?case
    unfolding query_loop_Suc using Suc.IH by auto
qed

lemma query_loop_exhausted:
  "fst (query_loop llm v prompt n i cur) = None \<Longrightarrow>
   length (snd (query_loop llm v prompt n i cur)) = n"
proof (induction n arbitrary: i cur)
  case 0
  then show ?case by simp
next
  case (Suc n)
  then show ?case
    unfolding query_loop_Suc by (auto split: if_splits)
qed

lemma query_loop_last:
  "fst (query_loop llm v prompt n i cur) = Some d \<Longrightarrow>
   snd (query_loop llm v prompt n i cur) \<noteq> []
   \<and> last (snd (query_loop llm v prompt n i cur)) = d
   \<and> (\<forall>x \<in> set (butlast (snd (query_loop llm v prompt n i cur))). \<not> accepted v x)"
proof (induction n arbitrary: i cur)
  case 0
  then show ?case by simp
next
  case (Suc n)
  show ?case
  proof (cases "accepted v (llm i cur)")
    case True
    then show ?thesis using Suc.prems unfolding query_loop_Suc by simp
  next
    case False
    let ?rest = "query_loop llm v prompt n (Suc i) (feedback_prompt v prompt (llm i cur))"
    from False Suc.prems have "fst ?rest = Some d"
      unfolding query_loop_Suc by simp
    from Suc.IH [OF this] False show ?thesis
      unfolding query_loop_Suc by simp
  qed
qed

lemma query_loop_first:
  "snd (query_loop llm v prompt n i cur) \<noteq> [] \<Longrightarrow>
   snd (query_loop llm v prompt n i cur) ! 0 = llm i cur"
  by (cases n) (simp_all add: query_loop_Suc del: query_loop.simps(2))

lemma query_loop_next:
  "Suc k < length (snd (query_loop llm v prompt n i cur)) \<Longrightarrow>
   snd (query_loop llm v prompt n i cur) ! Suc k =
     llm (i + Suc k) (feedback_prompt v prompt (snd (query_loop llm v prompt n i cur) ! k))"
proof (induction n arbitrary: i cur k)
  case 0
  then show ?case by simp
next
  case (Suc n)
  let ?rest = "query_loop llm v prompt n (Suc i) (feedback_prompt v prompt (llm i cur))"
  have rej: "\<not> accepted v (llm i cur)"
    using Suc.prems unfolding query_loop_Suc by (auto split: if_splits)
  then have tr: "snd (query_loop llm v prompt (Suc n) i cur) = llm i cur # snd ?rest"
    unfolding query_loop_Suc by simp
  show ?case
  proof (cases k)
    case 0
    then have "snd ?rest \<noteq> []" using Suc.prems tr by auto
    from query_loop_first [OF this] show ?thesis
      using 0 tr by simp
  next
    case (Suc j)
    then have "Suc j < length (snd ?rest)" using Suc.prems tr by simp
    from Suc.IH [OF this] show ?thesis
      using Suc tr by simp
  qed
qed


text \<open>
  Claim C8, as the code has it. For every prompt, validator and retry budget \<open>N\<close>,
  the loop makes at most \<open>N + 1\<close> attempts, one after the other: the first with the
  prompt, each later one with the feedback prompt built from the previous answer. It
  returns the first answer that is non-empty (truthy) and accepted by the validator,
  and stops there; when no attempt gives such an answer it makes all \<open>N + 1\<close>
  attempts and returns \<open>None\<close>. An empty answer (\<open>[]\<close>, \<open>{}\<close>) counts as a failed
  extraction and the validator is not asked about it.
\<close>

theorem validated_query_first_accepted:
  "length (snd (query_llama_with_validation llm prompt v max_retries)) \<le> nat (max_retries + 1)
   \<and> fst (query_llama_with_validation llm prompt v max_retries) =
       find (accepted v) (snd (query_llama_with_validation llm prompt v max_retries))
   \<and> (fst (query_llama_with_validation llm prompt v max_retries) = None \<longrightarrow>
         length (snd (query_llama_with_validation llm prompt v max_retries)) = nat (max_retries + 1)
         \<and> (\<forall>x \<in> set (snd (query_llama_with_validation llm prompt v max_retries)).
               \<not> accepted v x))
   \<and> (\<forall>d. fst (query_llama_with_validation llm prompt v max_retries) = Some d \<longrightarrow>
         accepted v d
         \<and> last (snd (query_llama_with_validation llm prompt v max_retries)) = d
         \<and> (\<forall>x \<in> set (butlast (snd (query_llama_with_validation llm prompt v max_retries))).
               \<not> accepted v x))
   \<and> (snd (query_llama_with_validation llm prompt v max_retries) \<noteq> [] \<longrightarrow>
         snd (query_llama_with_validation llm prompt v max_retries) ! 0 = llm 0 prompt)
   \<and> (\<forall>k. Suc k < length (snd (query_llama_with_validation llm prompt v max_retries)) \<longrightarrow>
         snd (query_llama_with_validation llm prompt v max_retries) ! Suc k =
           llm (Suc k) (feedback_prompt v prompt
             (snd (query_llama_with_validation llm prompt v max_retries) ! k)))"
proof -
  let ?n = "nat (max_retries + 1)"
  let ?Q = "query_loop llm v prompt ?n 0 prompt"
  have len: "length (snd ?Q) \<le> ?n" by (rule query_loop_length)
  have fnd: "fst ?Q = find (accepted v) (snd ?Q)" by (rule query_loop_find)
  have none: "length (snd ?Q) = ?n \<and> (\<forall>x \<in> set (snd ?Q). \<not> accepted v x)"
    if n: "fst ?Q = None"
  proof
    show "length (snd ?Q) = ?n" using n by (rule query_loop_exhausted)
    have "find (accepted v) (snd ?Q) = None" using n fnd by simp
    then show "\<forall>x \<in> set (snd ?Q). \<not> accepted v x" by (simp add: find_None_iff)
  qed
  have some: "accepted v d \<and> last (snd ?Q) = d \<and> (\<forall>x \<in> set (butlast (snd ?Q)). \<not> accepted v x)"
    if s: "fst ?Q = Some d" for d
  proof -
    have "find (accepted v) (snd ?Q) = Some d" using s fnd by simp
    then have "accepted v d" by (auto simp: find_Some_iff)
    then show ?thesis using query_loop_last [OF s] by simp
  qed
  have first: "snd ?Q ! 0 = llm 0 prompt" if "snd ?Q \<noteq> []"
    using that by (rule query_loop_first)
  have nxt: "snd ?Q ! Suc k = llm (Suc k) (feedback_prompt v prompt (snd ?Q ! k))"
    if "Suc k < length (snd ?Q)" for k
    using query_loop_next [OF that] by simp
  show ?thesis
    unfolding query_llama_with_validation_def
    using len fnd none some first nxt by blast
qed

theorem validated_query_first_accepted_witness:
  "query_llama_with_validation third_time_lucky ''p'' need_five 3 =
       (Some five_items, [JNull, JArr [JInt 1], five_items])
   \<and> accepted need_five five_items
   \<and> \<not> accepted need_five JNull \<and> \<not> accepted need_five (JArr [JInt 1])
   \<and> query_llama_with_validation never_json ''p'' need_five 3 =
       (None, [JNull, JNull, JNull, JNull])
   \<and> length [JNull, JNull, JNull, JNull] = nat (3 + 1)"
proof -
  have q1: "query_llama_with_validation third_time_lucky ''p'' need_five 3 =
       (Some five_items, [JNull, JArr [JInt 1], five_items])" by code_simp
  have q2: "query_llama_with_validation never_json ''p'' need_five 3 =
       (None, [JNull, JNull, JNull, JNull])" by code_simp
  note t1 = validated_query_first_accepted [of third_time_lucky "''p''" need_five 3]
  note t2 = validated_query_first_accepted [of never_json "''p''" need_five 3]
  have a: "accepted need_five five_items"
    using t1 unfolding q1 by simp
  have b: "\<forall>x \<in> set (butlast [JNull, JArr [JInt 1], five_items]). \<not> accepted need_five x"
    using t1 unfolding q1 by simp
  have c: "length [JNull, JNull, JNull, JNull] = nat (3 + 1)"
    using t2 unfolding q2 by simp
  show ?thesis using q1 q2 a b c by simp
qed

text \<open>
  Claim C8 as stated fails for a validator that accepts an empty answer: the first
  extracted payload \<open>[]\<close> is accepted by the validator, yet the loop treats it as
  not JSON, asks again and returns the second answer.
\<close>

theorem validated_query_counterexample:
  "empty_then_one 0 ''p'' = JArr []
   \<and> fst (accept_all (JArr []))
   \<and> fst (query_llama_with_validation empty_then_one ''p'' accept_all 3) = Some (JArr [JInt 1])
   \<and> snd (query_llama_with_validation empty_then_one ''p'' accept_all 3) = [JArr [], JArr [JInt 1]]"
  by code_simp



section \<open>Properties of the profile sanitizer\<close>

lemma utf8_chars_ascii:
  assumes "ascii_str s"
  shows "utf8_chars s = map (\<lambda>c. [c]) s"
  using assms
proof (induction s)
  case Nil
  then show ?case by simp
next
  case (Cons c cs)
  then have rest: "utf8_chars cs = map (\<lambda>c. [c]) cs" by (simp add: ascii_str_def)
  show ?case
  proof (cases cs)
    case Nil
    then show ?thesis by simp
  next
    case (Cons a as)
    then have "is_ascii a" using Cons.prems by (simp add: ascii_str_def)
    then have "\<not> is_cont a" by (simp add: is_ascii_def is_cont_def)
    then show ?thesis using rest Cons by simp
  qed
qed

lemma title_char_cased:
  "(is_lower (if prev then lower_char c else upper_char c)
      \<or> is_upper (if prev then lower_char c else upper_char c))
   = (is_lower c \<or> is_upper c)"
  by (auto simp: is_lower_def is_upper_def upper_char_def lower_char_def)

lemma title_char_again:
  "(if prev then lower_char (if prev then lower_char c else upper_char c)
    else upper_char (if prev then lower_char c else upper_char c))
   = (if prev then lower_char c else upper_char c)"
  by (auto simp: is_lower_def is_upper_def upper_char_def lower_char_def)

lemma title_char_lower:
  "lower_char (if prev then lower_char c else upper_char c) = lower_char c"
  by (auto simp: is_lower_def is_upper_def upper_char_def lower_char_def)

lemma title_char_ascii:
  "is_ascii c \<Longrightarrow> is_ascii (if prev then lower_char c else upper_char c)"
  by (auto simp: is_ascii_def is_lower_def is_upper_def upper_char_def lower_char_def)

lemma title_chars_ascii_Cons:
  assumes "is_ascii c"
  shows "title_chars ucd prev ([c] # chs) =
    (if prev then lower_char c else upper_char c)
      # title_chars ucd (is_lower c \<or> is_upper c) chs"
  using assms by (simp add: char_casing_def)

lemma title_ascii_closed:
  assumes "ascii_str s"
  shows "ascii_str (title_chars ucd prev (map (\<lambda>c. [c]) s))"
  using assms
proof (induction s arbitrary: prev)
  case Nil
  then show ?case by (simp add: ascii_str_def)
next
  case (Cons c cs)
  then have c: "is_ascii c" and cs: "ascii_str cs" by (simp_all add: ascii_str_def)
  show ?case
    using title_char_ascii [OF c, of prev] Cons.IH [OF cs, of "is_lower c \<or> is_upper c"]
    by (simp add: title_chars_ascii_Cons [OF c] ascii_str_def del: title_chars.simps)
qed

lemma title_ascii_lower:
  assumes "ascii_str s"
  shows "lower (title_chars ucd prev (map (\<lambda>c. [c]) s)) = lower s"
  using assms
proof (induction s arbitrary: prev)
  case Nil
  then show ?case by (simp add: lower_def)
next
  case (Cons c cs)
  then have c: "is_ascii c" and cs: "ascii_str cs" by (simp_all add: ascii_str_def)
  show ?case
    using title_char_lower [of prev c] Cons.IH [OF cs, of "is_lower c \<or> is_upper c"]
    by (simp add: title_chars_ascii_Cons [OF c] lower_def del: title_chars.simps)
qed

lemma title_ascii_again:
  assumes "ascii_str s"
  shows "title_chars ucd prev (map (\<lambda>c. [c]) (title_chars ucd prev (map (\<lambda>c. [c]) s)))
    = title_chars ucd prev (map (\<lambda>c. [c]) s)"
  using assms
proof (induction s arbitrary: prev)
  case Nil
  then show ?case by simp
next
  case (Cons c cs)
  then have c: "is_ascii c" and cs: "ascii_str cs" by (simp_all add: ascii_str_def)
  let ?o = "if prev then lower_char c else upper_char c"
  have o: "is_ascii ?o" by (rule title_char_ascii [OF c])
  have first: "title_chars ucd prev (map (\<lambda>c. [c]) (c # cs)) =
      ?o # title_chars ucd (is_lower c \<or> is_upper c) (map (\<lambda>c. [c]) cs)"
    using title_chars_ascii_Cons [OF c] by simp
  have "title_chars ucd prev (map (\<lambda>c. [c])
          (?o # title_chars ucd (is_lower c \<or> is_upper c) (map (\<lambda>c. [c]) cs))) =
      (if prev then lower_char ?o else upper_char ?o)
        # title_chars ucd (is_lower ?o \<or> is_upper ?o)
            (map (\<lambda>c. [c]) (title_chars ucd (is_lower c \<or> is_upper c) (map (\<lambda>c. [c]) cs)))"
    using title_chars_ascii_Cons [OF o] by simp
  also have "\<dots> = ?o # title_chars ucd (is_lower c \<or> is_upper c) (map (\<lambda>c. [c]) cs)"
    using title_char_again [of prev c] title_char_cased [of prev c]
      Cons.IH [OF cs, of "is_lower c \<or> is_upper c"]
    by simp
  finally show ?case unfolding first .
qed

lemma title_case_ascii:
  assumes "ascii_str s"
  shows "title_case ucd s = title_chars ucd False (map (\<lambda>c. [c]) s)"
  by (simp add: title_case_def utf8_chars_ascii [OF assms])

lemma ascii_title_stable:
  assumes "ascii_str s"
  shows "title_stable ucd s"
proof -
  have t: "title_case ucd s = title_chars ucd False (map (\<lambda>c. [c]) s)"
    by (rule title_case_ascii [OF assms])
  have a: "ascii_str (title_case ucd s)"
    unfolding t by (rule title_ascii_closed [OF assms])
  have "title_case ucd (title_case ucd s) =
      title_chars ucd False (map (\<lambda>c. [c]) (title_case ucd s))"
    by (rule title_case_ascii [OF a])
  also have "\<dots> = title_case ucd s"
    unfolding t by (rule title_ascii_again [OF assms])
  finally have again: "title_case ucd (title_case ucd s) = title_case ucd s" .
  have "lower (title_case ucd s) = lower s"
    unfolding t by (rule title_ascii_lower [OF assms])
  with again show ?thesis by (simp add: title_stable_def)
qed


lemma check_nfr_stable:
  assumes "check_nfr ucd text_lower nfr = Some v" and "title_stable ucd nfr"
  shows "check_nfr ucd text_lower v = Some v"
proof -
  let ?clean = "strip (lower nfr)"
  let ?nums = "findall_digits ?clean"
  show ?thesis
  proof (cases "?nums \<noteq> [] \<and> list_all (\<lambda>n. str_in n text_lower) ?nums")
    case True
    then have "v = nfr" using assms(1) by (simp add: check_nfr_def Let_def)
    then show ?thesis using assms(1) by simp
  next
    case numeric: False
    show ?thesis
    proof (cases "concept_loop text_lower ?clean concepts")
      case True
      then have v: "v = title_case ucd nfr"
        using assms(1) numeric by (simp add: check_nfr_def Let_def)
      have same: "strip (lower v) = ?clean"
        unfolding v using assms(2) by (simp add: title_stable_def)
      have again: "title_case ucd v = v"
        unfolding v using assms(2) by (simp add: title_stable_def)
      show ?thesis
        using numeric True unfolding check_nfr_def Let_def same
        by (simp add: again)
    next
      case False
      then have "v = nfr"
        using assms(1) numeric by (simp add: check_nfr_def Let_def split: if_splits)
      then show ?thesis using assms(1) by simp
    qed
  qed
qed

lemma nfr_loop_members:
  "v \<in> set (nfr_loop ucd text_lower nfrs) \<Longrightarrow>
   \<exists>nfr \<in> set nfrs. check_nfr ucd text_lower nfr = Some v"
  by (induction nfrs) (auto split: option.splits)

lemma nfr_loop_fixed:
  assumes "\<forall>v \<in> set vs. check_nfr ucd text_lower v = Some v"
  shows "nfr_loop ucd text_lower vs = vs"
  using assms by (induction vs) simp_all

lemma check_tool_idem: "check_tool text_lower (check_tool text_lower entry) = check_tool text_lower entry"
  by (cases entry) (simp add: check_tool_def)

lemma sanitize_nfr_stable:
  assumes "set (set_order (nfr_loop ucd text_lower nfrs)) = set (nfr_loop ucd text_lower nfrs)"
    and "\<forall>s \<in> set nfrs. title_stable ucd s"
  shows "nfr_loop ucd text_lower (set_order (nfr_loop ucd text_lower nfrs)) =
    set_order (nfr_loop ucd text_lower nfrs)"
proof (rule nfr_loop_fixed, rule ballI)
  fix v
  assume "v \<in> set (set_order (nfr_loop ucd text_lower nfrs))"
  then have "v \<in> set (nfr_loop ucd text_lower nfrs)" using assms(1) by simp
  then obtain nfr where nfr: "nfr \<in> set nfrs" and c: "check_nfr ucd text_lower nfr = Some v"
    using nfr_loop_members by blast
  have "title_stable ucd nfr" using nfr assms(2) by simp
  with c show "check_nfr ucd text_lower v = Some v" by (rule check_nfr_stable)
qed

lemma sanitize_fields:
  "name (sanitize_profile so ucd md p t) = name p"
  "budget_inr_per_month (sanitize_profile so ucd md p t) =
     (case budget_in_text md (lower t) of None \<Rightarrow> budget_inr_per_month p | Some n \<Rightarrow> Some (of_int n))"
  "non_functional_requirements (sanitize_profile so ucd md p t) =
     so (nfr_loop ucd (lower t) (non_functional_requirements p))"
  "tech_stack (sanitize_profile so ucd md p t) = map (check_tool (lower t)) (tech_stack p)"
  "description (sanitize_profile so ucd md p t) = first_sentence t"
  by (simp_all add: sanitize_profile_def Let_def)

lemma sanitize_twice:
  assumes "\<forall>xs. set (so xs) = set xs"
    and "\<forall>s \<in> set (non_functional_requirements p). title_stable ucd s"
  shows "sanitize_profile so ucd md (sanitize_profile so ucd md p t) t =
    (sanitize_profile so ucd md p t)
      \<lparr>non_functional_requirements :=
         so (non_functional_requirements (sanitize_profile so ucd md p t))\<rparr>"
proof -
  let ?q = "sanitize_profile so ucd md p t"
  let ?V = "nfr_loop ucd (lower t) (non_functional_requirements p)"
  have "set (so ?V) = set ?V" using assms(1) by simp
  then have nfr: "nfr_loop ucd (lower t) (so ?V) = so ?V"
    using assms(2) by (rule sanitize_nfr_stable)
  have b: "budget_inr_per_month (sanitize_profile so ucd md ?q t) = budget_inr_per_month ?q"
    by (simp add: sanitize_fields split: option.splits)
  have n: "non_functional_requirements (sanitize_profile so ucd md ?q t) =
      so (non_functional_requirements ?q)"
    by (simp add: sanitize_fields nfr)
  have ts: "tech_stack (sanitize_profile so ucd md ?q t) = tech_stack ?q"
    by (simp add: sanitize_fields check_tool_idem)
  have d: "description (sanitize_profile so ucd md ?q t) = description ?q"
    by (simp add: sanitize_fields)
  have nm: "name (sanitize_profile so ucd md ?q t) = name ?q"
    by (simp add: sanitize_fields)
  show ?thesis
  proof (rule profile.equality)
    show "name (sanitize_profile so ucd md ?q t) =
        name (?q\<lparr>non_functional_requirements := so (non_functional_requirements ?q)\<rparr>)"
      using nm by simp
    show "budget_inr_per_month (sanitize_profile so ucd md ?q t) =
        budget_inr_per_month (?q\<lparr>non_functional_requirements := so (non_functional_requirements ?q)\<rparr>)"
      using b by simp
    show "description (sanitize_profile so ucd md ?q t) =
        description (?q\<lparr>non_functional_requirements := so (non_functional_requirements ?q)\<rparr>)"
      using d by simp
    show "tech_stack (sanitize_profile so ucd md ?q t) =
        tech_stack (?q\<lparr>non_functional_requirements := so (non_functional_requirements ?q)\<rparr>)"
      using ts by simp
    show "non_functional_requirements (sanitize_profile so ucd md ?q t) =
        non_functional_requirements
          (?q\<lparr>non_functional_requirements := so (non_functional_requirements ?q)\<rparr>)"
      using n by simp
    show "profile.more (sanitize_profile so ucd md ?q t) =
        profile.more (?q\<lparr>non_functional_requirements := so (non_functional_requirements ?q)\<rparr>)"
      by simp
  qed
qed

text \<open>
  Claim C7, as the code has it. Let the requirement strings of the candidate profile
  be stable under title-casing, as every string of ASCII characters is. Then
  sanitizing the sanitized profile again against the same text leaves name, budget,
  tech stack and description as they are and keeps the set of requirements; the list
  of requirements is that set listed once more by \<^verbatim>\<open>list(set(...))\<close>, in an order that
  Python leaves open, so the two profiles are equal as they stand only where that
  listing returns the list it is given.
\<close>

theorem sanitize_profile_idempotent:
  assumes "\<forall>xs. set (set_order xs) = set xs"
    and "\<forall>s \<in> set (non_functional_requirements p). title_stable ucd s"
  shows "sanitize_profile set_order ucd max_digits (sanitize_profile set_order ucd max_digits p t) t =
      (sanitize_profile set_order ucd max_digits p t)
        \<lparr>non_functional_requirements :=
           set_order (non_functional_requirements (sanitize_profile set_order ucd max_digits p t))\<rparr>
    \<and> set (non_functional_requirements
             (sanitize_profile set_order ucd max_digits (sanitize_profile set_order ucd max_digits p t) t)) =
        set (non_functional_requirements (sanitize_profile set_order ucd max_digits p t))
    \<and> (set_order (non_functional_requirements (sanitize_profile set_order ucd max_digits p t)) =
          non_functional_requirements (sanitize_profile set_order ucd max_digits p t) \<longrightarrow>
        sanitize_profile set_order ucd max_digits (sanitize_profile set_order ucd max_digits p t) t =
          sanitize_profile set_order ucd max_digits p t)
    \<and> (\<forall>s. ascii_str s \<longrightarrow> title_stable ucd s)"
proof -
  let ?q = "sanitize_profile set_order ucd max_digits p t"
  have twice: "sanitize_profile set_order ucd max_digits ?q t =
      ?q\<lparr>non_functional_requirements := set_order (non_functional_requirements ?q)\<rparr>"
    by (rule sanitize_twice [OF assms])
  have "set (non_functional_requirements (sanitize_profile set_order ucd max_digits ?q t)) =
      set (set_order (non_functional_requirements ?q))"
    by (simp add: twice)
  then have sets: "set (non_functional_requirements (sanitize_profile set_order ucd max_digits ?q t)) =
      set (non_functional_requirements ?q)"
    using assms(1) by simp
  have same: "sanitize_profile set_order ucd max_digits ?q t = ?q"
    if "set_order (non_functional_requirements ?q) = non_functional_requirements ?q"
    using twice that by simp
  have ascii: "\<forall>s. ascii_str s \<longrightarrow> title_stable ucd s"
    using ascii_title_stable by blast
  show ?thesis using twice sets same ascii by blast
qed

theorem sanitize_profile_idempotent_witness:
  "(\<forall>xs :: string list. set (remdups xs) = set xs)
   \<and> list_all ascii_str (non_functional_requirements shop_candidate)
   \<and> sanitize_profile remdups sample_ucd 4300 shop_candidate shop_text =
       \<lparr> name = ''E-Shop'', budget_inr_per_month = Some 15000,
         description = ''Small e-commerce site on AWS using SQLite, budget Rs'',
         tech_stack = [(''cloud'', ''AWS''), (''database'', ''SQLite''),
                       (''frontend'', ''Not Specified'')],
         non_functional_requirements = [''High Security'', ''500 users'', ''Scalability''] \<rparr>
   \<and> remdups [''High Security'', ''500 users'', ''Scalability''] =
       [''High Security'', ''500 users'', ''Scalability'']
   \<and> sanitize_profile remdups sample_ucd 4300
         (sanitize_profile remdups sample_ucd 4300 shop_candidate shop_text) shop_text =
       sanitize_profile remdups sample_ucd 4300 shop_candidate shop_text"
proof -
  have so: "\<forall>xs :: string list. set (remdups xs) = set xs" by simp
  have asc: "list_all ascii_str (non_functional_requirements shop_candidate)" by code_simp
  then have st: "\<forall>s \<in> set (non_functional_requirements shop_candidate). title_stable sample_ucd s"
    using ascii_title_stable by (auto simp: list_all_iff)
  have once: "sanitize_profile remdups sample_ucd 4300 shop_candidate shop_text =
       \<lparr> name = ''E-Shop'', budget_inr_per_month = Some 15000,
         description = ''Small e-commerce site on AWS using SQLite, budget Rs'',
         tech_stack = [(''cloud'', ''AWS''), (''database'', ''SQLite''),
                       (''frontend'', ''Not Specified'')],
         non_functional_requirements = [''High Security'', ''500 users'', ''Scalability''] \<rparr>"
    by code_simp
  have rd: "remdups [''High Security'', ''500 users'', ''Scalability''] =
       [''High Security'', ''500 users'', ''Scalability'']"
    by code_simp
  have fixed: "remdups (non_functional_requirements
        (sanitize_profile remdups sample_ucd 4300 shop_candidate shop_text))
      = non_functional_requirements (sanitize_profile remdups sample_ucd 4300 shop_candidate shop_text)"
    unfolding once using rd by simp
  have "sanitize_profile remdups sample_ucd 4300
         (sanitize_profile remdups sample_ucd 4300 shop_candidate shop_text) shop_text =
       sanitize_profile remdups sample_ucd 4300 shop_candidate shop_text"
    using sanitize_profile_idempotent [OF so st, where t = shop_text and max_digits = 4300]
      fixed by blast
  then show ?thesis using so asc once rd by blast
qed

text \<open>
  Claim C7 as stated fails twice. With the requirement "j-caron a security" the first
  pass keeps the title-cased string, whose second letter is small, and the second
  pass title-cases that string again and raises the letter after the combining
  caron: the two profiles do not even hold the same set of requirements. And where
  \<^verbatim>\<open>list(set(...))\<close> lists the same set in another order, the two profiles differ in
  the order of their requirements.
\<close>

theorem sanitize_profile_counterexample:
  "non_functional_requirements
       (sanitize_profile remdups sample_ucd 4300 caron_candidate caron_text) =
     [''J'' @ combining_caron @ ''a Security'']
   \<and> non_functional_requirements
       (sanitize_profile remdups sample_ucd 4300
          (sanitize_profile remdups sample_ucd 4300 caron_candidate caron_text) caron_text) =
     [''J'' @ combining_caron @ ''A Security'']
   \<and> set (non_functional_requirements
       (sanitize_profile remdups sample_ucd 4300
          (sanitize_profile remdups sample_ucd 4300 caron_candidate caron_text) caron_text)) \<noteq>
     set (non_functional_requirements
       (sanitize_profile remdups sample_ucd 4300 caron_candidate caron_text))
   \<and> non_functional_requirements
       (sanitize_profile reversed_listing sample_ucd 4300 shop_candidate shop_text) =
     [''Scalability'', ''500 users'', ''High Security'']
   \<and> non_functional_requirements
       (sanitize_profile reversed_listing sample_ucd 4300
          (sanitize_profile reversed_listing sample_ucd 4300 shop_candidate shop_text) shop_text) =
     [''High Security'', ''500 users'', ''Scalability'']"
  by code_simp

end
